(* ===== verification/Lidb_Prelude.thy ===== *)
theory Lidb_Prelude
  imports Main "HOL-Library.AList"
begin

text \<open>
  Prelude of the lidb development: the exceptions the Python packages raise, the error monad
  in which every raising function is written, Python dictionaries as association lists in
  insertion order, and the generic list lemmas the components share.
\<close>

named_theorems err_simps
  \<open>inversion rules for the error monad\<close>

section \<open>Exceptions\<close>

text \<open>
  One constructor per exception class of \<open>liq/errors.py\<close>, \<open>liorm/errors.py\<close> and of the
  built-ins the code can raise. The message texts are not observed by any code of the
  repository; what distinguishes the raise sites of the parser is kept as a \<open>parse_fault\<close>.
\<close>

datatype parse_fault =
    Forbidden_token
  | Invalid_identifier string
  | Expected_param string
  | Invalid_literal string
  | Where_malformed
  | Binding_malformed string
  | Read_no_table
  | Unclosed_projection
  | Order_no_column
  | Limit_no_integer
  | Limit_not_integer
  | Unexpected_in_read string
  | Insert_malformed
  | Insert_not_closed
  | Update_malformed
  | Update_set_malformed
  | Unexpected_in_update string
  | Update_no_binding
  | Delete_no_table
  | Delete_not_where
  | Empty_program
  | Unsupported_statement string

datatype exc =
    ParseError parse_fault
  | CompileError
  | CatalogError string
  | ParameterMismatch
  | UnknownPlan string
  | CapabilityDenied
  | ValueError
  | TypeError
  | KeyError string
  | AttributeError
  | RuntimeError
  | CalledProcessError

type_synonym 'a result = "exc + 'a"

section \<open>The error monad\<close>

text \<open>A raising call stops the function that makes it: \<open>ebind\<close> passes a value on and an
  exception through.\<close>

definition ebind :: "'e + 'a \<Rightarrow> ('a \<Rightarrow> 'e + 'b) \<Rightarrow> 'e + 'b" where
  "ebind m f = (case m of Inl e \<Rightarrow> Inl e | Inr x \<Rightarrow> f x)"

text \<open>A value and no exception.\<close>

definition returns :: "'e + 'a \<Rightarrow> bool" where
  "returns m \<longleftrightarrow> (case m of Inl e \<Rightarrow> False | Inr x \<Rightarrow> True)"

text \<open>A list comprehension whose element expression may raise.\<close>

primrec emap :: "('a \<Rightarrow> 'e + 'b) \<Rightarrow> 'a list \<Rightarrow> 'e + 'b list" where
  "emap f [] = Inr []"
| "emap f (x # xs) = ebind (f x) (\<lambda>y. ebind (emap f xs) (\<lambda>ys. Inr (y # ys)))"

lemma ebind_Inl [simp]: "ebind (Inl e) f = Inl e"
  and ebind_Inr [simp]: "ebind (Inr x) f = f x"
  by (simp_all add: ebind_def)

lemma returnsE: "returns m \<Longrightarrow> (\<And>x. m = Inr x \<Longrightarrow> P) \<Longrightarrow> P"
  by (cases m) (auto simp: returns_def)

lemma ebind_cong [fundef_cong]:
  "m = m' \<Longrightarrow> (\<And>x. m' = Inr x \<Longrightarrow> f x = g x) \<Longrightarrow> ebind m f = ebind m' g"
  by (simp add: ebind_def split: sum.splits)

lemma ebind_cong_weak [cong]: "m = m' \<Longrightarrow> ebind m f = ebind m' f"
  by simp

lemma ebind_eq_Inr [err_simps]:
  "ebind m f = Inr y \<longleftrightarrow> (\<exists>x. m = Inr x \<and> f x = Inr y)"
  by (cases m) auto

lemma ebind_eq_Inl [err_simps]:
  "ebind m f = Inl e \<longleftrightarrow> m = Inl e \<or> (\<exists>x. m = Inr x \<and> f x = Inl e)"
  by (cases m) auto

lemma ebind_assoc: "ebind (ebind m f) g = ebind m (\<lambda>x. ebind (f x) g)"
  by (cases m) auto

lemma ebind_Inr_right [simp]: "ebind m Inr = m"
  by (cases m) auto

lemma emap_eq_Inr:
  "emap f xs = Inr ys \<longleftrightarrow> list_all2 (\<lambda>x y. f x = Inr y) xs ys"
  by (induction xs arbitrary: ys) (auto simp: ebind_eq_Inr list_all2_Cons1)

lemma emap_length: "emap f xs = Inr ys \<Longrightarrow> length ys = length xs"
  by (simp add: emap_eq_Inr list_all2_lengthD)

lemma emap_set: "emap f xs = Inr ys \<Longrightarrow> y \<in> set ys \<Longrightarrow> \<exists>x\<in>set xs. f x = Inr y"
  by (induction xs arbitrary: ys) (auto simp: ebind_eq_Inr)

lemma emap_total: "(\<And>x. x \<in> set xs \<Longrightarrow> f x = Inr (g x)) \<Longrightarrow> emap f xs = Inr (map g xs)"
  by (induction xs) auto

lemma emap_Inl: "emap f xs = Inl e \<Longrightarrow> \<exists>x\<in>set xs. f x = Inl e"
  by (induction xs) (auto simp: ebind_eq_Inl)

lemma emap_map: "emap f (map g xs) = emap (f \<circ> g) xs"
  by (induction xs) (auto simp: ebind_def split: sum.splits)

lemma emap_cong [fundef_cong]:
  "xs = ys \<Longrightarrow> (\<And>x. x \<in> set ys \<Longrightarrow> f x = g x) \<Longrightarrow> emap f xs = emap g ys"
  by (induction ys arbitrary: xs) (auto simp: ebind_def split: sum.splits)

section \<open>Dictionaries\<close>

text \<open>
  A Python \<open>dict\<close> keeps its keys in insertion order, and the order matters to \<open>liorm\<close>
  (parameters are bound in the order of the schema's keys). A dictionary is an association
  list with distinct keys; \<open>d[k] = v\<close> is \<open>AList.update k v d\<close>, which overwrites in place or
  appends, and \<open>d.get(k)\<close> is \<open>map_of d k\<close>.
\<close>

type_synonym ('k, 'v) dict = "('k \<times> 'v) list"

definition dict_keys :: "('k, 'v) dict \<Rightarrow> 'k list" where
  "dict_keys d = map fst d"

definition is_dict :: "('k, 'v) dict \<Rightarrow> bool" where
  "is_dict d \<longleftrightarrow> distinct (dict_keys d)"

lemma dict_keys_Nil [simp]: "dict_keys [] = []"
  and dict_keys_Cons [simp]: "dict_keys ((k, v) # d) = k # dict_keys d"
  and dict_keys_append [simp]: "dict_keys (d @ d') = dict_keys d @ dict_keys d'"
  by (simp_all add: dict_keys_def)

lemma is_dict_Nil [simp]: "is_dict []"
  by (simp add: is_dict_def)

lemma dict_keys_update:
  "dict_keys (AList.update k v d) = (if k \<in> set (dict_keys d) then dict_keys d else dict_keys d @ [k])"
  by (induction d) auto

lemma is_dict_update [simp]: "is_dict d \<Longrightarrow> is_dict (AList.update k v d)"
  by (auto simp: is_dict_def dict_keys_update)

lemma map_of_dict_key: "k \<in> set (dict_keys d) \<longleftrightarrow> (\<exists>v. map_of d k = Some v)"
  by (induction d) auto

lemma map_of_update_dict: "map_of (AList.update k v d) = (map_of d)(k \<mapsto> v)"
  by (rule update_conv')

text \<open>\<open>names.append(x)\<close> under the guard \<open>x not in names\<close>: a list used as an ordered set.\<close>

definition add_new :: "'a \<Rightarrow> 'a list \<Rightarrow> 'a list" where
  "add_new x xs = (if x \<in> set xs then xs else xs @ [x])"

lemma set_add_new [simp]: "set (add_new x xs) = insert x (set xs)"
  by (auto simp: add_new_def)

lemma distinct_add_new [simp]: "distinct (add_new x xs) \<longleftrightarrow> distinct xs"
  by (auto simp: add_new_def)

lemma dict_keys_update_add_new: "dict_keys (AList.update k v d) = add_new k (dict_keys d)"
  by (simp add: dict_keys_update add_new_def)

section \<open>Lists\<close>

lemma dropWhile_Cons_length:
  assumes "dropWhile P s = c # t"
  shows "length t < length s"
proof -
  have "length (c # t) \<le> length s"
    using length_dropWhile_le [of P s] assms by simp
  then show ?thesis by simp
qed

lemma takeWhile_all: "(\<And>x. x \<in> set xs \<Longrightarrow> P x) \<Longrightarrow> takeWhile P xs = xs"
  by (simp add: takeWhile_eq_all_conv)

lemma takeWhile_stop: "(\<And>x. x \<in> set xs \<Longrightarrow> P x) \<Longrightarrow> \<not> P y \<Longrightarrow> takeWhile P (xs @ y # ys) = xs"
  by (simp add: takeWhile_append2)

lemma dropWhile_stop: "(\<And>x. x \<in> set xs \<Longrightarrow> P x) \<Longrightarrow> \<not> P y \<Longrightarrow> dropWhile P (xs @ y # ys) = y # ys"
  by (simp add: dropWhile_append2)

lemma dropWhile_all: "(\<And>x. x \<in> set xs \<Longrightarrow> P x) \<Longrightarrow> dropWhile P xs = []"
  by (simp add: dropWhile_eq_Nil_conv)

lemma dropWhile_none: "xs = [] \<or> \<not> P (hd xs) \<Longrightarrow> dropWhile P xs = xs"
  by (cases xs) auto

section \<open>Actions\<close>

text \<open>
  Code that keeps state and may raise: a function from the state to a result and the next
  state, which is kept when an exception is raised.
\<close>

type_synonym ('s, 'a) action = "'s \<Rightarrow> 'a result \<times> 's"

definition act_ret :: "'a \<Rightarrow> ('s, 'a) action" where
  "act_ret x = (\<lambda>s. (Inr x, s))"

definition act_raise :: "exc \<Rightarrow> ('s, 'a) action" where
  "act_raise e = (\<lambda>s. (Inl e, s))"

definition lift_result :: "'a result \<Rightarrow> ('s, 'a) action" where
  "lift_result r = (\<lambda>s. (r, s))"

definition act_seq :: "('s, 'a) action \<Rightarrow> ('a \<Rightarrow> ('s, 'b) action) \<Rightarrow> ('s, 'b) action" where
  "act_seq m f = (\<lambda>s. case m s of (Inl e, s') \<Rightarrow> (Inl e, s') | (Inr x, s') \<Rightarrow> f x s')"

lemma action_simps [simp]:
  "act_ret x s = (Inr x, s)" "act_raise e s = (Inl e, s)" "lift_result r s = (r, s)"
  by (simp_all add: act_ret_def act_raise_def lift_result_def)

lemma act_seq_Inr [simp]: "m s = (Inr x, s') \<Longrightarrow> act_seq m f s = f x s'"
  and act_seq_Inl [simp]: "m s = (Inl e, s') \<Longrightarrow> act_seq m f s = (Inl e, s')"
  by (simp_all add: act_seq_def)

lemma act_seq_eq_Inr:
  "act_seq m f s = (Inr y, s'') \<longleftrightarrow> (\<exists>x s'. m s = (Inr x, s') \<and> f x s' = (Inr y, s''))"
  by (auto simp: act_seq_def split: prod.split sum.splits)

end
