(* ===== verification/Py_Str.thy ===== *)
theory Py_Str
  imports Lidb_Prelude "HOL-Library.Sublist"
begin

text \<open>
  The methods of Python's \<open>str\<close> that the packages use. A \<open>str\<close> is a \<open>string\<close>: a list of code
  points below 256 (Latin-1). The character classes are Python's on that range, so the
  non-ASCII members (NEL and NBSP are white space, the superscripts two, three and one are
  digits for \<open>isdigit\<close>) are kept.
\<close>

section \<open>Characters\<close>

definition ord :: "char \<Rightarrow> nat" where
  "ord c = of_char c"

definition is_space :: "char \<Rightarrow> bool" where
  "is_space c \<longleftrightarrow> (9 \<le> ord c \<and> ord c \<le> 13) \<or> (28 \<le> ord c \<and> ord c \<le> 32) \<or> ord c = 133 \<or> ord c = 160"

definition is_decimal :: "char \<Rightarrow> bool" where
  "is_decimal c \<longleftrightarrow> 48 \<le> ord c \<and> ord c \<le> 57"

definition is_digit :: "char \<Rightarrow> bool" where
  "is_digit c \<longleftrightarrow> is_decimal c \<or> ord c = 178 \<or> ord c = 179 \<or> ord c = 185"

definition is_ascii :: "char \<Rightarrow> bool" where
  "is_ascii c \<longleftrightarrow> ord c < 128"

definition is_upper_ascii :: "char \<Rightarrow> bool" where
  "is_upper_ascii c \<longleftrightarrow> 65 \<le> ord c \<and> ord c \<le> 90"

definition is_lower_ascii :: "char \<Rightarrow> bool" where
  "is_lower_ascii c \<longleftrightarrow> 97 \<le> ord c \<and> ord c \<le> 122"

text \<open>The regex classes \<open>[a-zA-Z_]\<close> and \<open>[a-zA-Z0-9_]\<close>.\<close>

definition ident_start :: "char \<Rightarrow> bool" where
  "ident_start c \<longleftrightarrow> is_upper_ascii c \<or> is_lower_ascii c \<or> ord c = 95"

definition ident_char :: "char \<Rightarrow> bool" where
  "ident_char c \<longleftrightarrow> ident_start c \<or> is_decimal c"

text \<open>\<open>str.lower\<close> on one character: ASCII capitals and the accented capitals of Latin-1.\<close>

definition lower_char :: "char \<Rightarrow> char" where
  "lower_char c =
     (if is_upper_ascii c \<or> (192 \<le> ord c \<and> ord c \<le> 222 \<and> ord c \<noteq> 215)
      then char_of (ord c + 32) else c)"

lemmas char_class_defs =
  is_space_def is_decimal_def is_digit_def is_ascii_def is_upper_ascii_def is_lower_ascii_def
  ident_start_def ident_char_def

lemma ord_less [simp]: "ord c < 256"
proof -
  have "of_char c mod 256 = (of_char c :: nat)"
    by (rule of_char_mod_256)
  then show ?thesis
    unfolding ord_def by (metis mod_less_divisor zero_less_numeral)
qed

lemma ord_inject [simp]: "ord c = ord d \<longleftrightarrow> c = d"
  by (simp add: ord_def)

lemma decimal_not_space [simp]: "is_decimal c \<Longrightarrow> \<not> is_space c"
  and decimal_digit [simp]: "is_decimal c \<Longrightarrow> is_digit c"
  and digit_not_space [simp]: "is_digit c \<Longrightarrow> \<not> is_space c"
  and ident_start_char [simp]: "ident_start c \<Longrightarrow> ident_char c"
  and ident_char_not_space [simp]: "ident_char c \<Longrightarrow> \<not> is_space c"
  and ascii_digit_decimal: "is_ascii c \<Longrightarrow> is_digit c \<Longrightarrow> is_decimal c"
  and ident_start_not_digit [simp]: "ident_start c \<Longrightarrow> \<not> is_digit c"
  by (auto simp: char_class_defs)

section \<open>Stripping and splitting\<close>

definition py_strip :: "string \<Rightarrow> string" where
  "py_strip s = rev (dropWhile is_space (rev (dropWhile is_space s)))"

text \<open>\<open>s.rstrip(",")\<close>\<close>

definition rstrip_comma :: "string \<Rightarrow> string" where
  "rstrip_comma s = rev (dropWhile (\<lambda>c. c = CHR '','') (rev s))"

text \<open>\<open>s.split()\<close>: the maximal runs of characters that are not white space.\<close>

function split_ws :: "string \<Rightarrow> string list" where
  "split_ws s =
     (case dropWhile is_space s of
        [] \<Rightarrow> []
      | c # t \<Rightarrow> (c # takeWhile (\<lambda>x. \<not> is_space x) t) # split_ws (dropWhile (\<lambda>x. \<not> is_space x) t))"
  by pat_completeness auto
termination
  by (relation "measure length")
    (auto intro: le_less_trans [OF length_dropWhile_le] dropWhile_Cons_length)

declare split_ws.simps [simp del]

text \<open>\<open>s.split(c)\<close> for a one-character separator.\<close>

fun split_on :: "char \<Rightarrow> string \<Rightarrow> string list" where
  "split_on c [] = [[]]"
| "split_on c (x # xs) =
     (if x = c then [] # split_on c xs
      else (case split_on c xs of [] \<Rightarrow> [[x]] | w # ws \<Rightarrow> (x # w) # ws))"

text \<open>\<open>s.split(c, 1)\<close> when \<open>c\<close> occurs in \<open>s\<close>: the text before the first \<open>c\<close> and after it.\<close>

definition split_first :: "char \<Rightarrow> string \<Rightarrow> string \<times> string" where
  "split_first c s = (takeWhile (\<lambda>x. x \<noteq> c) s, tl (dropWhile (\<lambda>x. x \<noteq> c) s))"

text \<open>\<open>sep.join(xs)\<close>\<close>

fun join :: "string \<Rightarrow> string list \<Rightarrow> string" where
  "join sep [] = []"
| "join sep [x] = x"
| "join sep (x # y # ys) = x @ sep @ join sep (y # ys)"

text \<open>\<open>v in s\<close>, \<open>s.startswith(p)\<close>, \<open>s.endswith(p)\<close>\<close>

definition in_str :: "string \<Rightarrow> string \<Rightarrow> bool" where
  "in_str v s \<longleftrightarrow> sublist v s"

definition starts_with :: "string \<Rightarrow> string \<Rightarrow> bool" where
  "starts_with s p \<longleftrightarrow> prefix p s"

definition ends_with :: "string \<Rightarrow> string \<Rightarrow> bool" where
  "ends_with s p \<longleftrightarrow> suffix p s"

definition lower :: "string \<Rightarrow> string" where
  "lower s = map lower_char s"

text \<open>\<open>s.isdigit()\<close>: not empty and digits only.\<close>

definition isdigit :: "string \<Rightarrow> bool" where
  "isdigit s \<longleftrightarrow> s \<noteq> [] \<and> list_all is_digit s"

section \<open>Integers and their text\<close>

definition digit_val :: "char \<Rightarrow> nat" where
  "digit_val c = ord c - 48"

definition digit_char :: "nat \<Rightarrow> char" where
  "digit_char d = char_of (48 + d)"

definition nat_of_digits :: "string \<Rightarrow> nat" where
  "nat_of_digits s = foldl (\<lambda>n c. 10 * n + digit_val c) 0 s"

text \<open>
  \<open>int(s)\<close> on a string that passed \<open>isdigit\<close>. It raises \<open>ValueError\<close> on superscripts, which are
  digits but not decimals, and on more than \<open>sys.get_int_max_str_digits()\<close> digits, leading zeros
  included: the default of Python 3.12.
\<close>

definition MAX_STR_DIGITS :: int where
  "MAX_STR_DIGITS = 4300"

definition within_limit :: "string \<Rightarrow> bool" where
  "within_limit s \<longleftrightarrow> int (length s) \<le> MAX_STR_DIGITS"

definition py_int :: "string \<Rightarrow> int result" where
  "py_int s =
     (if s \<noteq> [] \<and> list_all is_decimal s \<and> within_limit s then Inr (int (nat_of_digits s)) else Inl ValueError)"

text \<open>\<open>str(n)\<close>, for an integer within the limit (\<open>small_int\<close>): \<open>str\<close> raises on the others, which
  no operation of the code makes from a text.\<close>

fun show_nat :: "nat \<Rightarrow> string" where
  "show_nat n = (if n < 10 then [digit_char n] else show_nat (n div 10) @ [digit_char (n mod 10)])"

declare show_nat.simps [simp del]

definition show_int :: "int \<Rightarrow> string" where
  "show_int i = (if i < 0 then CHR ''-'' # show_nat (nat (- i)) else show_nat (nat i))"

definition small_int :: "int \<Rightarrow> bool" where
  "small_int i \<longleftrightarrow> within_limit (show_nat (nat \<bar>i\<bar>))"

section \<open>Tokens\<close>

text \<open>What \<open>split\<close> returns: words that are not empty and contain no white space.\<close>

definition is_token :: "string \<Rightarrow> bool" where
  "is_token w \<longleftrightarrow> w \<noteq> [] \<and> list_all (\<lambda>c. \<not> is_space c) w"

lemma is_tokenE:
  assumes "is_token w"
  obtains c t where "w = c # t" "\<not> is_space c" "\<And>x. x \<in> set t \<Longrightarrow> \<not> is_space x"
  using assms by (cases w) (auto simp: is_token_def list_all_iff)

lemma split_ws_none: "dropWhile is_space s = [] \<Longrightarrow> split_ws s = []"
  by (simp only: split_ws.simps [of s] list.case)

lemma split_ws_some:
  "dropWhile is_space s = c # t \<Longrightarrow>
   split_ws s = (c # takeWhile (\<lambda>x. \<not> is_space x) t) # split_ws (dropWhile (\<lambda>x. \<not> is_space x) t)"
  by (simp only: split_ws.simps [of s] list.case)

lemma split_ws_Nil [simp]: "split_ws [] = []"
  by (simp add: split_ws_none)

lemma split_ws_space [simp]: "is_space c \<Longrightarrow> split_ws (c # s) = split_ws s"
  by (subst (1 2) split_ws.simps) simp

lemma split_ws_tokens: "list_all is_token (split_ws s)"
proof (induction s rule: split_ws.induct)
  case (1 s)
  show ?case
  proof (cases "dropWhile is_space s")
    case Nil
    then have "split_ws s = []" by (rule split_ws_none)
    then show ?thesis by simp
  next
    case (Cons c t)
    then have "\<not> is_space c"
      using hd_dropWhile [of is_space s] by simp
    moreover have "list_all (\<lambda>x. \<not> is_space x) (takeWhile (\<lambda>x. \<not> is_space x) t)"
      by (auto simp: list_all_iff dest: set_takeWhileD)
    ultimately show ?thesis
      using "1" [OF Cons] Cons by (simp add: split_ws.simps [of s] is_token_def)
  qed
qed

lemma split_ws_token_last:
  assumes "is_token w"
  shows "split_ws w = [w]"
proof -
  from assms obtain c t where w: "w = c # t" "\<not> is_space c" and t: "\<And>x. x \<in> set t \<Longrightarrow> \<not> is_space x"
    by (erule is_tokenE)
  have w': "dropWhile is_space w = c # t"
    using w by simp
  have d: "dropWhile (\<lambda>x. \<not> is_space x) t = []" and k: "takeWhile (\<lambda>x. \<not> is_space x) t = t"
    using t by (auto intro: dropWhile_all takeWhile_all)
  show ?thesis
    unfolding split_ws_some [OF w'] d k split_ws_Nil by (simp add: w)
qed

lemma split_ws_token_space:
  assumes w: "is_token w" and sp: "is_space b"
  shows "split_ws (w @ b # s) = w # split_ws s"
proof -
  from w obtain c t where w_eq: "w = c # t" and c: "\<not> is_space c"
    and t: "\<And>x. x \<in> set t \<Longrightarrow> \<not> is_space x"
    by (erule is_tokenE)
  have "takeWhile (\<lambda>x. \<not> is_space x) (t @ b # s) = t"
    and "dropWhile (\<lambda>x. \<not> is_space x) (t @ b # s) = b # s"
    using t sp by (simp_all add: takeWhile_stop dropWhile_stop)
  then show ?thesis
    using c sp by (simp add: w_eq split_ws.simps [of "c # t @ b # s"])
qed

lemma space_blank [simp]: "is_space (CHR '' '')"
  by (simp add: is_space_def ord_def)

lemma split_ws_join: "list_all is_token ws \<Longrightarrow> split_ws (join '' '' ws) = ws"
  by (induction "'' ''" ws rule: join.induct) (simp_all add: split_ws_token_last split_ws_token_space)

lemma py_strip_id:
  assumes "s = [] \<or> (\<not> is_space (hd s) \<and> \<not> is_space (last s))"
  shows "py_strip s = s"
proof -
  have "dropWhile is_space s = s"
    by (rule dropWhile_none) (use assms in auto)
  moreover have "dropWhile is_space (rev s) = rev s"
    by (rule dropWhile_none) (use assms in \<open>auto simp: hd_rev\<close>)
  ultimately show ?thesis
    by (simp add: py_strip_def)
qed

lemma py_strip_token: "is_token w \<Longrightarrow> py_strip w = w"
  by (rule py_strip_id) (auto simp: is_token_def list_all_iff)

lemma py_strip_no_space: "list_all (\<lambda>c. \<not> is_space c) w \<Longrightarrow> py_strip w = w"
  by (rule py_strip_id) (auto simp: list_all_iff)

lemma join_eq_Nil: "list_all is_token ws \<Longrightarrow> join sep ws = [] \<longleftrightarrow> ws = []"
  by (cases "(sep, ws)" rule: join.cases) (auto simp: is_token_def)

lemma hd_join: "list_all is_token ws \<Longrightarrow> ws \<noteq> [] \<Longrightarrow> hd (join sep ws) = hd (hd ws)"
  by (cases "(sep, ws)" rule: join.cases) (auto simp: is_token_def)

lemma last_join: "list_all is_token ws \<Longrightarrow> ws \<noteq> [] \<Longrightarrow> last (join sep ws) = last (last ws)"
proof (induction sep ws rule: join.induct)
  case (3 sep x y ys)
  then have "join sep (y # ys) \<noteq> []"
    by (simp add: join_eq_Nil)
  with "3" show ?case by (simp add: is_token_def)
qed (auto simp: is_token_def)

lemma py_strip_join: "list_all is_token ws \<Longrightarrow> py_strip (join sep ws) = join sep ws"
proof (rule py_strip_id)
  assume ws: "list_all is_token ws"
  show "join sep ws = [] \<or> \<not> is_space (hd (join sep ws)) \<and> \<not> is_space (last (join sep ws))"
  proof (cases "ws = []")
    case False
    with ws have "is_token (hd ws)" and "is_token (last ws)"
      by (auto simp: list_all_iff)
    with ws False show ?thesis
      by (auto simp: hd_join last_join is_token_def list_all_iff)
  qed simp
qed

lemma rstrip_comma_snoc [simp]: "rstrip_comma (w @ '','') = rstrip_comma w"
  by (simp add: rstrip_comma_def)

lemma rstrip_comma_id: "w = [] \<or> last w \<noteq> CHR '','' \<Longrightarrow> rstrip_comma w = w"
  unfolding rstrip_comma_def by (subst dropWhile_none) (auto simp: hd_rev)

lemma set_rstrip_comma: "set (rstrip_comma w) \<subseteq> set w"
  by (auto simp: rstrip_comma_def dest: set_dropWhileD)

lemma split_on_none: "c \<notin> set w \<Longrightarrow> split_on c w = [w]"
  by (induction w) auto

lemma split_on_step: "c \<notin> set w \<Longrightarrow> split_on c (w @ c # s) = w # split_on c s"
  by (induction w) auto

lemma split_on_not_Nil [simp]: "split_on c s \<noteq> []"
  by (induction s) (auto split: list.splits)

lemma split_on_no_sep: "w \<in> set (split_on c s) \<Longrightarrow> c \<notin> set w"
  by (induction s arbitrary: w) (auto split: list.splits if_splits)

lemma join_Cons: "ws \<noteq> [] \<Longrightarrow> join sep (w # ws) = w @ sep @ join sep ws"
  by (cases ws) auto

lemma join_head: "join sep ((x # w) # ws) = x # join sep (w # ws)"
  by (cases ws) auto

lemma join_split_on: "join [c] (split_on c s) = s"
  by (induction s) (auto simp: join_Cons join_head split: list.splits)

lemma split_first_eq:
  assumes "c \<notin> set w"
  shows "split_first c (w @ c # s) = (w, s)"
proof -
  have "dropWhile (\<lambda>x. x \<noteq> c) (w @ c # s) = c # s"
    by (rule dropWhile_stop) (use assms in auto)
  moreover have "takeWhile (\<lambda>x. x \<noteq> c) (w @ c # s) = w"
    by (rule takeWhile_stop) (use assms in auto)
  ultimately show ?thesis by (simp add: split_first_def)
qed

section \<open>Decimal text round trip\<close>

lemma ord_digit_char: "d < 10 \<Longrightarrow> ord (digit_char d) = 48 + d"
  by (simp add: ord_def digit_char_def)

lemma digit_char_decimal [simp]: "d < 10 \<Longrightarrow> is_decimal (digit_char d)"
  by (simp add: is_decimal_def ord_digit_char)

lemma digit_val_char [simp]: "d < 10 \<Longrightarrow> digit_val (digit_char d) = d"
  by (simp add: digit_val_def ord_digit_char)

lemma nat_of_digits_snoc: "nat_of_digits (s @ [c]) = 10 * nat_of_digits s + digit_val c"
  by (simp add: nat_of_digits_def)

lemma show_nat_decimal: "list_all is_decimal (show_nat n)"
  by (induction n rule: show_nat.induct) (subst show_nat.simps, simp)

lemma show_nat_not_Nil [simp]: "show_nat n \<noteq> []"
  by (subst show_nat.simps) simp

lemma nat_of_digits_show [simp]: "nat_of_digits (show_nat n) = n"
proof (induction n rule: show_nat.induct)
  case (1 n)
  show ?case
  proof (cases "n < 10")
    case True
    then show ?thesis
      by (subst show_nat.simps) (simp add: nat_of_digits_def)
  next
    case False
    with "1" show ?thesis
      by (subst show_nat.simps) (simp add: nat_of_digits_snoc)
  qed
qed

lemma show_nat_inject: "show_nat m = show_nat n \<longleftrightarrow> m = n"
  by (metis nat_of_digits_show)

lemma show_nat_token [simp]: "is_token (show_nat n)"
  using show_nat_decimal [of n] by (auto simp: is_token_def list_all_iff)

lemma isdigit_show_nat [simp]: "isdigit (show_nat n)"
  using show_nat_decimal [of n] by (auto simp: isdigit_def list_all_iff)

lemma py_int_show: "0 \<le> i \<Longrightarrow> small_int i \<Longrightarrow> py_int (show_nat (nat i)) = Inr i"
  by (simp add: py_int_def show_nat_decimal small_int_def)

text \<open>A number has no more digits than any text it was read from.\<close>

lemma length_show_nat: "n < 10 ^ k \<Longrightarrow> 0 < k \<Longrightarrow> length (show_nat n) \<le> k"
proof (induction n arbitrary: k rule: show_nat.induct)
  case (1 n)
  show ?case
  proof (cases "n < 10")
    case True
    with "1.prems" show ?thesis by (subst show_nat.simps) simp
  next
    case False
    with "1.prems"(1) obtain j where k: "k = Suc j" "0 < j"
      by (cases k; cases "k - 1") auto
    have "n div 10 < 10 ^ j" using "1.prems"(1) k by (simp add: less_mult_imp_div_less mult.commute)
    from "1.IH" [OF False this k(2)] False k show ?thesis
      by (subst show_nat.simps) simp
  qed
qed

lemma nat_of_digits_less: "list_all is_decimal s \<Longrightarrow> nat_of_digits s < 10 ^ length s"
proof (induction s rule: rev_induct)
  case (snoc c s)
  then have "nat_of_digits s < 10 ^ length s" "digit_val c < 10"
    by (auto simp: digit_val_def is_decimal_def)
  then show ?case by (simp add: nat_of_digits_snoc)
qed (simp add: nat_of_digits_def)

lemma py_int_Inr: "py_int s = Inr i \<Longrightarrow> 0 \<le> i \<and> small_int i"
  using nat_of_digits_less [of s] length_show_nat [of "nat_of_digits s" "length s"]
  by (fastforce simp: py_int_def small_int_def within_limit_def split: if_splits)

lemma py_int_ascii: "isdigit s \<Longrightarrow> list_all is_ascii s \<Longrightarrow> within_limit s \<Longrightarrow> \<exists>i. py_int s = Inr i"
  by (auto simp: py_int_def isdigit_def list_all_iff ascii_digit_decimal)

end
