(* ===== verification/Py_Regex.thy ===== *)
theory Py_Regex
  imports Py_Str
begin

text \<open>
  The part of Python's \<open>re\<close> that the packages use. Their patterns are sequences of single
  characters, character classes under a greedy \<open>*\<close> or \<open>+\<close>, and a final \<open>$\<close>; an optional
  group is two patterns tried in order. \<open>re_match\<close> is the backtracking matcher of \<open>re\<close> for
  such sequences: it returns the text each item consumed (capture groups are concatenations
  of neighbouring entries) and the text after the match. \<open>re_sub\<close> and \<open>re_search\<close> are
  \<open>Pattern.sub\<close> and \<open>Pattern.search\<close>.
\<close>

section \<open>Patterns and the backtracking matcher\<close>

datatype re_item =
    One "char \<Rightarrow> bool"
  | Star "char \<Rightarrow> bool"
  | Plus "char \<Rightarrow> bool"
  | Eos

type_synonym re_pat = "re_item list"

definition lit :: "string \<Rightarrow> re_pat" where
  "lit s = map (\<lambda>c. One (\<lambda>x. x = c)) s"

text \<open>A literal (in lower case) under the flag \<open>(?i)\<close>.\<close>

definition lit_ci :: "string \<Rightarrow> re_pat" where
  "lit_ci s = map (\<lambda>c. One (\<lambda>x. lower_char x = c)) s"

text \<open>\<open>push c\<close> puts a consumed character in front of the first item's text, \<open>skip\<close> gives the
  first item the empty text.\<close>

definition push :: "char \<Rightarrow> (string list \<times> string) option \<Rightarrow> (string list \<times> string) option" where
  "push c r = map_option (\<lambda>(gs, u). (case gs of [] \<Rightarrow> [[c]] | g # gs' \<Rightarrow> (c # g) # gs', u)) r"

definition skip :: "(string list \<times> string) option \<Rightarrow> (string list \<times> string) option" where
  "skip r = map_option (\<lambda>(gs, u). ([] # gs, u)) r"

text \<open>\<open>$\<close> matches at the end of the string and before a final newline.\<close>

definition at_end :: "string \<Rightarrow> bool" where
  "at_end s \<longleftrightarrow> s = [] \<or> s = [CHR 0x0A]"

fun re_match :: "re_pat \<Rightarrow> string \<Rightarrow> (string list \<times> string) option" where
  "re_match [] s = Some ([], s)"
| "re_match (One p # r) [] = None"
| "re_match (One p # r) (c # t) = (if p c then push c (skip (re_match r t)) else None)"
| "re_match (Star p # r) [] = skip (re_match r [])"
| "re_match (Star p # r) (c # t) =
     (if p c
      then (case re_match (Star p # r) t of
              Some m \<Rightarrow> push c (Some m)
            | None \<Rightarrow> skip (re_match r (c # t)))
      else skip (re_match r (c # t)))"
| "re_match (Plus p # r) [] = None"
| "re_match (Plus p # r) (c # t) = (if p c then push c (re_match (Star p # r) t) else None)"
| "re_match (Eos # r) s = (if at_end s then skip (re_match r s) else None)"

text \<open>\<open>re.search\<close>: a match at some position.\<close>

fun re_search :: "re_pat \<Rightarrow> string \<Rightarrow> bool" where
  "re_search p [] \<longleftrightarrow> re_match p [] \<noteq> None"
| "re_search p (c # t) \<longleftrightarrow> re_match p (c # t) \<noteq> None \<or> re_search p t"

text \<open>
  \<open>re.sub\<close>: the leftmost matches are replaced one after the other, none overlapping. The
  last branch (an empty match) is not reached by patterns that consume a character, which
  the locale below states of every pattern of the code.
\<close>

function re_sub :: "re_pat \<Rightarrow> (string list \<Rightarrow> string) \<Rightarrow> string \<Rightarrow> string" where
  "re_sub p f [] = []"
| "re_sub p f (c # t) =
     (case re_match p (c # t) of
        None \<Rightarrow> c # re_sub p f t
      | Some (gs, u) \<Rightarrow>
          if length u < length (c # t) then f gs @ re_sub p f u else c # re_sub p f t)"
  by pat_completeness auto
termination
  by (relation "measure (\<lambda>(p, f, s). length s)") auto

declare re_sub.simps [simp del]

section \<open>What a match is\<close>

text \<open>
  \<open>splits_as p gs u\<close>: the pieces \<open>gs\<close> are texts of the items of \<open>p\<close>, in a string that goes on
  with \<open>u\<close>. The matcher finds such a split exactly when there is one.
\<close>

fun splits_as :: "re_pat \<Rightarrow> string list \<Rightarrow> string \<Rightarrow> bool" where
  "splits_as [] [] u \<longleftrightarrow> True"
| "splits_as (One p # r) (g # gs) u \<longleftrightarrow> (case g of [c] \<Rightarrow> p c | _ \<Rightarrow> False) \<and> splits_as r gs u"
| "splits_as (Star p # r) (g # gs) u \<longleftrightarrow> list_all p g \<and> splits_as r gs u"
| "splits_as (Plus p # r) (g # gs) u \<longleftrightarrow> g \<noteq> [] \<and> list_all p g \<and> splits_as r gs u"
| "splits_as (Eos # r) (g # gs) u \<longleftrightarrow> g = [] \<and> at_end (concat gs @ u) \<and> splits_as r gs u"
| "splits_as _ _ u \<longleftrightarrow> False"

lemma push_eq_Some:
  "push c r = Some (gs, u) \<longleftrightarrow>
     r = Some ([], u) \<and> gs = [[c]] \<or> (\<exists>g gs'. r = Some (g # gs', u) \<and> gs = (c # g) # gs')"
  by (cases r) (auto simp: push_def split: list.splits prod.splits)

lemma skip_eq_Some: "skip r = Some (gs, u) \<longleftrightarrow> (\<exists>gs'. r = Some (gs', u) \<and> gs = [] # gs')"
  by (cases r) (auto simp: skip_def)

lemma push_None [simp]: "push c r = None \<longleftrightarrow> r = None"
  and skip_None [simp]: "skip r = None \<longleftrightarrow> r = None"
  by (simp_all add: push_def skip_def)

lemma push_Some [simp]: "push c (Some (g # gs, u)) = Some ((c # g) # gs, u)"
  and skip_Some [simp]: "skip (Some (gs, u)) = Some ([] # gs, u)"
  by (simp_all add: push_def skip_def)

text \<open>Soundness: the pieces make up the consumed text and fit their items.\<close>

lemma re_match_sound:
  "re_match p s = Some (gs, u) \<Longrightarrow> s = concat gs @ u \<and> splits_as p gs u"
proof (induction p s arbitrary: gs u rule: re_match.induct)
  case (3 p r c t)
  then show ?case
    by (auto simp: push_eq_Some skip_eq_Some split: if_splits)
next
  case (5 p r c t)
  show ?case
  proof (cases "p c \<and> re_match (Star p # r) t \<noteq> None")
    case True
    then obtain hs v where m: "re_match (Star p # r) t = Some (hs, v)" by auto
    with True "5.IH"(1) have ih: "t = concat hs @ v" "splits_as (Star p # r) hs v"
      by auto
    then obtain h hs' where "hs = h # hs'"
      by (cases hs) auto
    with True m ih "5.prems" show ?thesis
      by auto
  next
    case False
    with "5.prems" have *: "skip (re_match r (c # t)) = Some (gs, u)"
      by (auto split: if_splits option.splits)
    then obtain gs' where gs: "re_match r (c # t) = Some (gs', u)" "gs = [] # gs'"
      by (auto simp: skip_eq_Some)
    have "c # t = concat gs' @ u \<and> splits_as r gs' u"
    proof (cases "p c")
      case True
      with False have "re_match (Star p # r) t = None" by (simp del: not_None_eq)
      then show ?thesis using "5.IH"(2) [OF True _ gs(1)] by simp
    next
      case False
      then show ?thesis using "5.IH"(3) [OF _ gs(1)] by simp
    qed
    with gs(2) show ?thesis by auto
  qed
next
  case (7 p r c t)
  then have "p c" and "push c (re_match (Star p # r) t) = Some (gs, u)"
    by (auto split: if_splits)
  with "7.IH" show ?case
    by (auto simp: push_eq_Some)
qed (auto simp: skip_eq_Some split: if_splits)

text \<open>Completeness: if the string splits, the matcher finds a split.\<close>

lemma re_match_Star_total:
  "re_match r s \<noteq> None \<Longrightarrow> list_all p g \<Longrightarrow> re_match (Star p # r) (g @ s) \<noteq> None"
proof (induction g)
  case Nil
  then show ?case by (cases s) (simp_all split: option.split del: not_None_eq)
qed (simp split: option.split del: not_None_eq)

lemma re_match_complete:
  "splits_as p gs u \<Longrightarrow> re_match p (concat gs @ u) \<noteq> None"
proof (induction p gs u rule: splits_as.induct)
  case (2 p r g gs u)
  then show ?case by (auto split: list.splits simp del: not_None_eq)
next
  case (3 p r g gs u)
  then show ?case using re_match_Star_total [of r "concat gs @ u" p g] by simp
next
  case (4 p r g gs u)
  then obtain c g' where "g = c # g'" and "p c" and "list_all p g'"
    by (cases g) auto
  with "4" show ?case
    using re_match_Star_total [of r "concat gs @ u" p g'] by (simp del: not_None_eq)
qed (auto simp del: not_None_eq)

theorem re_match_iff_split: "re_match p s \<noteq> None \<longleftrightarrow> (\<exists>gs u. s = concat gs @ u \<and> splits_as p gs u)"
  using re_match_sound re_match_complete by (metis option.exhaust surj_pair)

section \<open>Patterns that consume a character\<close>

text \<open>
  What \<open>re.sub\<close> needs of a pattern: every match is longer than nothing. Under this law the
  substitution unfolds at a match and steps over everything before it.
\<close>

locale re_pattern =
  fixes pat :: re_pat
  assumes consumes: "re_match pat s = Some (gs, u) \<Longrightarrow> length u < length s"
begin

lemma sub_Nil: "re_sub pat f [] = []"
  by (simp add: re_sub.simps)

lemma sub_match: "re_match pat s = Some (gs, u) \<Longrightarrow> re_sub pat f s = f gs @ re_sub pat f u"
  using consumes [of s gs u] by (cases s) (auto simp: re_sub.simps)

lemma sub_step: "re_match pat (c # t) = None \<Longrightarrow> re_sub pat f (c # t) = c # re_sub pat f t"
  by (simp add: re_sub.simps)

text \<open>Text in which no match starts is copied.\<close>

lemma sub_skip:
  "(\<And>a b. pre = a @ b \<Longrightarrow> b \<noteq> [] \<Longrightarrow> re_match pat (b @ s) = None) \<Longrightarrow>
   re_sub pat f (pre @ s) = pre @ re_sub pat f s"
proof (induction pre)
  case (Cons c pre)
  have "re_match pat ((c # pre) @ s) = None"
    by (rule Cons.prems [of "[]"]) auto
  moreover have "re_sub pat f (pre @ s) = pre @ re_sub pat f s"
    by (rule Cons.IH) (use Cons.prems [of "c # _"] in auto)
  ultimately show ?case by (simp add: sub_step)
qed simp

lemma no_match_Nil: "re_match pat [] = None"
proof (cases "re_match pat []")
  case (Some m)
  then show ?thesis using consumes [of "[]" "fst m" "snd m"] by simp
qed

text \<open>A string without a match is unchanged.\<close>

lemma sub_id: "\<not> re_search pat s \<Longrightarrow> re_sub pat f s = s"
  by (induction s) (simp_all add: sub_Nil sub_step del: not_None_eq)

end

text \<open>
  All patterns of the code start with one character of a class \<open>h\<close>: they consume it, and
  characters outside the class are stepped over.
\<close>

locale headed_pattern =
  fixes pat :: re_pat and h :: "char \<Rightarrow> bool"
  assumes head: "\<exists>r. pat = One h # r"
begin

lemma no_head: "\<not> h c \<Longrightarrow> re_match pat (c # t) = None"
  using head by auto

lemma match_head: "re_match pat s = Some (gs, u) \<Longrightarrow> \<exists>c t. s = c # t \<and> h c"
  using head by (cases s) (auto split: if_splits)

end

sublocale headed_pattern \<subseteq> re_pattern pat
proof
  fix s gs u
  assume m: "re_match pat s = Some (gs, u)"
  with head obtain r where r: "pat = One h # r" by blast
  with re_match_sound [OF m] have "s = concat gs @ u" and "splits_as (One h # r) gs u"
    by auto
  then show "length u < length s"
    by (cases gs) (auto split: list.splits)
qed

context headed_pattern
begin

lemma sub_other: "\<not> h c \<Longrightarrow> re_sub pat f (c # t) = c # re_sub pat f t"
  by (rule sub_step) (rule no_head)

lemma sub_prefix: "list_all (\<lambda>c. \<not> h c) pre \<Longrightarrow> re_sub pat f (pre @ s) = pre @ re_sub pat f s"
  by (induction pre) (auto simp: sub_other)

lemma sub_none: "list_all (\<lambda>c. \<not> h c) s \<Longrightarrow> re_sub pat f s = s"
  using sub_prefix [of s f "[]"] by (simp add: sub_Nil)

lemma search_head: "re_search pat s \<Longrightarrow> \<exists>c\<in>set s. h c"
  by (induction s) (auto dest: match_head)

end

section \<open>Matching concrete shapes\<close>

lemma re_match_lit [simp]: "re_match (lit w @ r) (w @ s) =
   map_option (\<lambda>(gs, u). (map (\<lambda>c. [c]) w @ gs, u)) (re_match r s)"
proof (induction w)
  case Nil
  then show ?case by (cases "re_match r s") (auto simp: lit_def)
next
  case (Cons c w)
  then show ?case by (cases "re_match r s") (auto simp: lit_def)
qed

text \<open>A greedy class takes a whole run when the rest of the pattern matches after it.\<close>

lemma re_match_Star_run:
  assumes "re_match r s = Some (gs, u)" "s = [] \<or> \<not> p (hd s)"
  shows "list_all p w \<Longrightarrow> re_match (Star p # r) (w @ s) = Some (w # gs, u)"
proof (induction w)
  case Nil
  then show ?case using assms by (cases s) auto
qed auto

lemma re_match_Plus_run:
  assumes "re_match r s = Some (gs, u)" "s = [] \<or> \<not> p (hd s)" "w \<noteq> []" "list_all p w"
  shows "re_match (Plus p # r) (w @ s) = Some (w # gs, u)"
  using assms(3,4) re_match_Star_run [of r s gs u p, OF assms(1,2)] by (cases w) auto

end
