(* ===== verification/Liq_Parser.thy ===== *)
theory Liq_Parser
  imports Py_Regex
begin

text \<open>
  \<open>liq/parser.py\<close>: the statements of liq, the parser from source text to statements, and what
  a successful parse guarantees. The Python loops index into a token list; here the position
  is the list of the tokens that remain. Exceptions are values: \<open>ParseError\<close> with the raise
  site, and the \<open>ValueError\<close> of \<open>int\<close>.
\<close>

section \<open>Statements\<close>

record ident_ref =
  raw :: string
  parts :: "string list"

datatype const_value = CStr string | CInt int

text \<open>\<open>ParamRef | Const\<close>\<close>

datatype rhs_value = Param string | Lit const_value

record where_pred =
  p_column :: string
  p_op :: string
  p_rhs :: rhs_value

type_synonym bindings = "(string \<times> rhs_value) list"

record read_stmt =
  r_table :: ident_ref
  r_columns :: "string list option"
  r_where :: "where_pred option"
  r_order_column :: "string option"
  r_order_desc :: bool
  r_limit :: "int option"

record insert_stmt =
  i_table :: ident_ref
  i_bindings :: bindings

record update_stmt =
  u_table :: ident_ref
  u_bindings :: bindings
  u_where :: "where_pred option"
  u_returning :: "string list option"

record delete_stmt =
  d_table :: ident_ref
  d_where :: "where_pred option"

datatype stmt =
    ReadStmt read_stmt
  | InsertStmt insert_stmt
  | UpdateStmt update_stmt
  | DeleteStmt delete_stmt

section \<open>Tokens\<close>

text \<open>\<open>_FORBIDDEN = \$\{|;\<close>: an alternative of two one-line patterns.\<close>

definition reject_forbidden :: "string \<Rightarrow> unit result" where
  "reject_forbidden source =
     (if re_search (lit ''${'') source \<or> re_search (lit '';'') source
      then Inl (ParseError Forbidden_token) else Inr ())"

text \<open>\<open>_PARAM = ^\$([a-zA-Z_][a-zA-Z0-9_]*)$\<close>\<close>

definition PARAM :: re_pat where
  "PARAM = lit ''$'' @ [One ident_start, Star ident_char, Eos]"

text \<open>\<open>_IDENT = ^[a-zA-Z_][a-zA-Z0-9_]*(?:\.[a-zA-Z_][a-zA-Z0-9_]*)?$\<close>: the optional group
  is tried first.\<close>

definition IDENT_dotted :: re_pat where
  "IDENT_dotted = [One ident_start, Star ident_char] @ lit ''.'' @ [One ident_start, Star ident_char, Eos]"

definition IDENT_plain :: re_pat where
  "IDENT_plain = [One ident_start, Star ident_char, Eos]"

definition IDENT_matches :: "string \<Rightarrow> bool" where
  "IDENT_matches token \<longleftrightarrow> re_match IDENT_dotted token \<noteq> None \<or> re_match IDENT_plain token \<noteq> None"

definition ident :: "string \<Rightarrow> ident_ref result" where
  "ident token =
     (if \<not> IDENT_matches token then Inl (ParseError (Invalid_identifier token))
      else Inr \<lparr>raw = token, parts = split_on (CHR ''.'') token\<rparr>)"

text \<open>Group 1 of \<open>_PARAM\<close> is what the second and the third item consumed.\<close>

definition param :: "string \<Rightarrow> rhs_value result" where
  "param token =
     (case re_match PARAM token of
        None \<Rightarrow> Inl (ParseError (Expected_param token))
      | Some (gs, _) \<Rightarrow> Inr (Param (gs ! 1 @ gs ! 2)))"

definition const :: "string \<Rightarrow> rhs_value result" where
  "const token =
     (if isdigit token then ebind (py_int token) (\<lambda>n. Inr (Lit (CInt n)))
      else if (starts_with token [CHR 0x27] \<and> ends_with token [CHR 0x27]) \<or>
              (starts_with token [CHR 0x22] \<and> ends_with token [CHR 0x22])
      then Inr (Lit (CStr (butlast (tl token))))
      else Inl (ParseError (Invalid_literal token)))"

definition rhs :: "string \<Rightarrow> rhs_value result" where
  "rhs token = (if starts_with token ''$'' then param token else const token)"

section \<open>Clauses\<close>

definition predicate :: "string list \<Rightarrow> (where_pred \<times> string list) result" where
  "predicate tokens =
     (case tokens of
        col # eq # val # rest \<Rightarrow>
          if eq \<noteq> ''='' then Inl (ParseError Where_malformed)
          else ebind (rhs val) (\<lambda>r. Inr (\<lparr>p_column = col, p_op = ''='', p_rhs = r\<rparr>, rest))
      | _ \<Rightarrow> Inl (ParseError Where_malformed))"

definition binding :: "string \<Rightarrow> (string \<times> rhs_value) result" where
  "binding part =
     (if CHR '':'' \<notin> set part then Inl (ParseError (Binding_malformed part))
      else (let (field, val) = split_first (CHR '':'') part in
            ebind (rhs (py_strip val)) (\<lambda>r. Inr (py_strip field, r))))"

definition parse_bindings :: "string \<Rightarrow> bindings result" where
  "parse_bindings inner =
     emap binding (filter (\<lambda>p. p \<noteq> []) (map py_strip (split_on (CHR '','') inner)))"

lemma predicate_length [termination_simp]:
  "predicate tokens = Inr (p, rest) \<Longrightarrow> length rest < length tokens"
  by (auto simp: predicate_def ebind_eq_Inr split: list.splits if_splits)

section \<open>Statements\<close>

text \<open>The \<open>while\<close> loop of \<open>_parse_read\<close> over the tokens after the table name.\<close>

function read_loop :: "string list \<Rightarrow> read_stmt \<Rightarrow> read_stmt result" where
  "read_loop [] st = Inr st"
| "read_loop (tok # ts) st =
     (if tok = ''{'' then
        (case dropWhile (\<lambda>t. t \<noteq> ''}'') ts of
           [] \<Rightarrow> Inl (ParseError Unclosed_projection)
         | _ # rest \<Rightarrow>
             read_loop rest
               (st\<lparr>r_columns := Some (map rstrip_comma (takeWhile (\<lambda>t. t \<noteq> ''}'') ts))\<rparr>))
      else if tok = ''where'' then
        (case predicate ts of
           Inl e \<Rightarrow> Inl e
         | Inr (p, rest) \<Rightarrow> read_loop rest (st\<lparr>r_where := Some p\<rparr>))
      else if tok = ''order'' then
        (case ts of
           [] \<Rightarrow> Inl (ParseError Order_no_column)
         | c # rest \<Rightarrow>
             (case rest of
                d # rest' \<Rightarrow>
                  if d \<in> {''asc'', ''desc''}
                  then read_loop rest' (st\<lparr>r_order_column := Some c, r_order_desc := (d = ''desc'')\<rparr>)
                  else read_loop rest (st\<lparr>r_order_column := Some c\<rparr>)
              | [] \<Rightarrow> read_loop rest (st\<lparr>r_order_column := Some c\<rparr>)))
      else if tok = ''limit'' then
        (case ts of
           [] \<Rightarrow> Inl (ParseError Limit_no_integer)
         | n # rest \<Rightarrow>
             if \<not> isdigit n then Inl (ParseError Limit_not_integer)
             else (case py_int n of
                     Inl e \<Rightarrow> Inl e
                   | Inr k \<Rightarrow> read_loop rest (st\<lparr>r_limit := Some k\<rparr>)))
      else Inl (ParseError (Unexpected_in_read tok)))"
  by pat_completeness auto
termination
  by (relation "measure (\<lambda>(ts, st). length ts)")
    (auto dest!: predicate_length dropWhile_Cons_length)

definition parse_read :: "string list \<Rightarrow> read_stmt result" where
  "parse_read tokens =
     (case tokens of
        _ # t # ts \<Rightarrow>
          ebind (ident t) (\<lambda>table.
            read_loop ts \<lparr>r_table = table, r_columns = None, r_where = None, r_order_column = None,
                          r_order_desc = False, r_limit = None\<rparr>)
      | _ \<Rightarrow> Inl (ParseError Read_no_table))"

definition parse_insert :: "string list \<Rightarrow> insert_stmt result" where
  "parse_insert tokens =
     (case tokens of
        _ # t # b # ts \<Rightarrow>
          if ts = [] \<or> b \<noteq> ''{'' then Inl (ParseError Insert_malformed)
          else ebind (ident t) (\<lambda>table.
            if last ts \<noteq> ''}'' then Inl (ParseError Insert_not_closed)
            else ebind (parse_bindings (join '' '' (butlast ts))) (\<lambda>bs.
              Inr \<lparr>i_table = table, i_bindings = bs\<rparr>))
      | _ \<Rightarrow> Inl (ParseError Insert_malformed))"

text \<open>The first loop of \<open>_parse_update\<close> (the \<open>set\<close> clause) returns the bindings and the
  tokens from \<open>where\<close> or \<open>returning\<close> on; the second loop reads the two optional clauses.\<close>

fun set_loop :: "string list \<Rightarrow> bindings \<Rightarrow> (bindings \<times> string list) result" where
  "set_loop [] bs = Inr (bs, [])"
| "set_loop (t # ts) bs =
     (if t \<in> {''where'', ''returning''} then Inr (bs, t # ts)
      else (case ts of
              eq # val # rest \<Rightarrow>
                if eq \<noteq> ''='' then Inl (ParseError Update_set_malformed)
                else (case rhs val of
                        Inl e \<Rightarrow> Inl e
                      | Inr r \<Rightarrow> set_loop rest (bs @ [(t, r)]))
            | _ \<Rightarrow> Inl (ParseError Update_set_malformed)))"

type_synonym update_clauses = "where_pred option \<times> string list option"

function update_loop :: "string list \<Rightarrow> update_clauses \<Rightarrow> update_clauses result" where
  "update_loop [] (w, r) = Inr (w, r)"
| "update_loop (tok # ts) (w, r) =
     (if tok = ''where'' then
        (case predicate ts of
           Inl e \<Rightarrow> Inl e
         | Inr (p, rest) \<Rightarrow> update_loop rest (Some p, r))
      else if tok = ''returning'' then Inr (w, Some (map rstrip_comma ts))
      else Inl (ParseError (Unexpected_in_update tok)))"
  by pat_completeness auto
termination
  by (relation "measure (\<lambda>(ts, c). length ts)") (auto dest!: predicate_length)

definition parse_update :: "string list \<Rightarrow> update_stmt result" where
  "parse_update tokens =
     (case tokens of
        v # t # s # ts \<Rightarrow>
          if length tokens < 5 \<or> v \<noteq> ''update'' \<or> s \<noteq> ''set'' then Inl (ParseError Update_malformed)
          else ebind (ident t) (\<lambda>table.
            ebind (set_loop ts []) (\<lambda>(bs, rest).
              ebind (update_loop rest (None, None)) (\<lambda>(w, r).
                if bs = [] then Inl (ParseError Update_no_binding)
                else Inr \<lparr>u_table = table, u_bindings = bs, u_where = w, u_returning = r\<rparr>)))
      | _ \<Rightarrow> Inl (ParseError Update_malformed))"

text \<open>The tokens after the predicate of a \<open>delete\<close> are dropped: \<open>where, _ = _predicate(...)\<close>.\<close>

definition delete_where :: "string list \<Rightarrow> where_pred option result" where
  "delete_where rest =
     (case rest of
        [] \<Rightarrow> Inr None
      | w # ts \<Rightarrow>
          if w \<noteq> ''where'' then Inl (ParseError Delete_not_where)
          else ebind (predicate ts) (\<lambda>(p, _). Inr (Some p)))"

definition parse_delete :: "string list \<Rightarrow> delete_stmt result" where
  "parse_delete tokens =
     (let ts = (case tl tokens of t # rest \<Rightarrow> if t = ''from'' then rest else t # rest | [] \<Rightarrow> [])
      in (case ts of
            [] \<Rightarrow> Inl (ParseError Delete_no_table)
          | t # rest \<Rightarrow>
              ebind (ident t) (\<lambda>table.
                ebind (delete_where rest) (\<lambda>w. Inr \<lparr>d_table = table, d_where = w\<rparr>))))"

definition parse_tokens :: "string list \<Rightarrow> stmt result" where
  "parse_tokens tokens =
     (let verb = lower (hd tokens) in
      if verb = ''read'' then ebind (parse_read tokens) (\<lambda>s. Inr (ReadStmt s))
      else if verb = ''insert'' then ebind (parse_insert tokens) (\<lambda>s. Inr (InsertStmt s))
      else if verb = ''update'' then ebind (parse_update tokens) (\<lambda>s. Inr (UpdateStmt s))
      else if verb = ''delete'' then ebind (parse_delete tokens) (\<lambda>s. Inr (DeleteStmt s))
      else Inl (ParseError (Unsupported_statement verb)))"

text \<open>\<open>text.split()\<close> of a text that is not empty after \<open>strip\<close> has a first token.\<close>

definition parse :: "string \<Rightarrow> stmt result" where
  "parse source =
     ebind (reject_forbidden source) (\<lambda>_.
       let text = py_strip source in
       if text = [] then Inl (ParseError Empty_program)
       else parse_tokens (split_ws text))"

end
