(* ===== verification/Liq_Wf.thy ===== *)
theory Liq_Wf
  imports Liq_Parser
begin

text \<open>
  What a successful parse guarantees of the statement (\<open>wf_stmt\<close>), which exceptions the parser
  can raise, and the characterisation of its token recognisers (the regular expressions of
  \<open>liq/parser.py\<close>) as plain predicates on strings.
\<close>

section \<open>Names\<close>

definition is_name :: "string \<Rightarrow> bool" where
  "is_name n \<longleftrightarrow> n \<noteq> [] \<and> ident_start (hd n) \<and> list_all ident_char n"

lemma is_name_Cons [simp]: "is_name (c # t) \<longleftrightarrow> ident_start c \<and> list_all ident_char t"
  by (auto simp: is_name_def)

lemma is_name_token: "is_name n \<Longrightarrow> is_token n"
  by (auto simp: is_name_def is_token_def list_all_iff)

lemma is_name_no: "is_name n \<Longrightarrow> \<not> ident_char c \<Longrightarrow> c \<notin> set n"
  by (auto simp: is_name_def list_all_iff)

lemma not_ident_chars [simp]:
  "\<not> ident_char (CHR ''.'')" "\<not> ident_char (CHR '','')" "\<not> ident_char (CHR '':'')"
  "\<not> ident_char (CHR ''$'')" "\<not> ident_char (CHR ''{'')" "\<not> ident_char (CHR '';'')"
  "\<not> ident_char (CHR ''='')" "\<not> ident_char (CHR ''}'')"
  "\<not> ident_start (CHR ''.'')" "\<not> ident_start (CHR ''$'')" "\<not> ident_start (CHR ''{'')"
  by (simp_all add: char_class_defs ord_def)

lemma not_space_chars [simp]:
  "\<not> is_space (CHR ''.'')" "\<not> is_space (CHR '','')" "\<not> is_space (CHR '':'')"
  "\<not> is_space (CHR ''$'')" "\<not> is_space (CHR ''{'')" "\<not> is_space (CHR ''='')"
  "\<not> is_space (CHR ''}'')" "\<not> is_space (CHR 0x27)" "is_space (CHR 0x0A)"
  by (simp_all add: char_class_defs ord_def)

text \<open>A token contains no newline, so \<open>$\<close> is the end of the string.\<close>

lemma at_end_token:
  assumes "is_token (w @ u)"
  shows "at_end u \<longleftrightarrow> u = []"
  using assms by (auto simp: at_end_def is_token_def)

lemma lit_Nil [simp]: "lit [] = []"
  and lit_Cons [simp]: "lit (c # w) = One (\<lambda>x. x = c) # lit w"
  by (simp_all add: lit_def)

lemma splits_as_Nil_iff [simp]: "splits_as [] gs u \<longleftrightarrow> gs = []"
  by (cases gs) auto

lemma splits_as_Cons_Nil [simp]: "\<not> splits_as (it # r) [] u"
  by (cases it) auto

lemma splits_as_name:
  "splits_as (One ident_start # Star ident_char # r) gs u \<longleftrightarrow>
     (\<exists>c w gs'. gs = [c] # w # gs' \<and> is_name (c # w) \<and> splits_as r gs' u)"
proof
  assume s: "splits_as (One ident_start # Star ident_char # r) gs u"
  then obtain g gs1 where g: "gs = g # gs1" by (cases gs) auto
  with s obtain w gs' where w: "gs1 = w # gs'" by (cases gs1) auto
  from s g w obtain c where "g = [c]" by (auto split: list.splits)
  with s g w show "\<exists>c w gs'. gs = [c] # w # gs' \<and> is_name (c # w) \<and> splits_as r gs' u"
    by (auto simp: is_name_def)
qed (auto simp: is_name_def)

lemma IDENT_plain_iff:
  assumes "is_token w"
  shows "re_match IDENT_plain w \<noteq> None \<longleftrightarrow> is_name w"
proof
  assume "re_match IDENT_plain w \<noteq> None"
  then obtain gs u where w: "w = concat gs @ u" and s: "splits_as IDENT_plain gs u"
    by (auto simp: re_match_iff_split simp del: not_None_eq)
  then obtain c t gs' where "gs = [c] # t # gs'" "is_name (c # t)" "splits_as [Eos] gs' u"
    by (auto simp: IDENT_plain_def splits_as_name)
  moreover from this(3) have "gs' = [[]]" "at_end u"
    by (cases gs'; auto)+
  ultimately show "is_name w"
    using assms w at_end_token [of "c # t" u] by auto
next
  assume n: "is_name w"
  then obtain c t where w: "w = c # t" by (cases w) (auto simp: is_name_def)
  have "splits_as IDENT_plain [[c], t, []] []"
    using n by (simp add: w IDENT_plain_def splits_as_name at_end_def)
  from re_match_complete [OF this] show "re_match IDENT_plain w \<noteq> None"
    by (simp add: w)
qed

lemma IDENT_dotted_iff:
  assumes "is_token w"
  shows "re_match IDENT_dotted w \<noteq> None \<longleftrightarrow> (\<exists>a b. is_name a \<and> is_name b \<and> w = a @ CHR ''.'' # b)"
proof
  assume "re_match IDENT_dotted w \<noteq> None"
  then obtain gs u where w: "w = concat gs @ u" and s: "splits_as IDENT_dotted gs u"
    by (auto simp: re_match_iff_split simp del: not_None_eq)
  then obtain c t gs1 where 1: "gs = [c] # t # gs1" "is_name (c # t)"
    and s1: "splits_as (One (\<lambda>x. x = CHR ''.'') # One ident_start # Star ident_char # [Eos]) gs1 u"
    by (auto simp: IDENT_dotted_def splits_as_name)
  from s1 obtain gs2 where 2: "gs1 = ''.'' # gs2"
    and s2: "splits_as (One ident_start # Star ident_char # [Eos]) gs2 u"
    by (cases gs1) (auto split: list.splits)
  from s2 obtain d v gs3 where 3: "gs2 = [d] # v # gs3" "is_name (d # v)" "splits_as [Eos] gs3 u"
    by (auto simp: splits_as_name)
  from 3(3) have "gs3 = [[]]" "at_end u"
    by (cases gs3; auto)+
  with 1 2 3 w assms at_end_token [of "c # t @ CHR ''.'' # d # v" u]
  have "is_name (c # t) \<and> is_name (d # v) \<and> w = (c # t) @ CHR ''.'' # (d # v)" by auto
  then show "\<exists>a b. is_name a \<and> is_name b \<and> w = a @ CHR ''.'' # b" by blast
next
  assume "\<exists>a b. is_name a \<and> is_name b \<and> w = a @ CHR ''.'' # b"
  then obtain a b where n: "is_name a" "is_name b" and w: "w = a @ CHR ''.'' # b" by blast
  then obtain c t d v where ab: "a = c # t" "b = d # v"
    by (cases a; cases b) (auto simp: is_name_def)
  have "splits_as IDENT_dotted [[c], t, ''.'', [d], v, []] []"
    using n by (simp add: ab IDENT_dotted_def splits_as_name at_end_def)
  from re_match_complete [OF this] show "re_match IDENT_dotted w \<noteq> None"
    by (simp add: w ab)
qed

section \<open>Identifiers, parameters, constants\<close>

definition wf_ident :: "ident_ref \<Rightarrow> bool" where
  "wf_ident i \<longleftrightarrow>
     parts i = split_on (CHR ''.'') (raw i) \<and> list_all is_name (parts i) \<and> length (parts i) \<le> 2"

lemma wf_ident_cases:
  "wf_ident i \<longleftrightarrow>
     (is_name (raw i) \<and> parts i = [raw i]) \<or>
     (\<exists>a b. is_name a \<and> is_name b \<and> raw i = a @ CHR ''.'' # b \<and> parts i = [a, b])"
proof
  assume wf: "wf_ident i"
  have j: "join ''.'' (parts i) = raw i"
    using wf join_split_on [of "CHR ''.''" "raw i"] by (simp add: wf_ident_def)
  from wf have "parts i \<noteq> []" and "length (parts i) \<le> 2" by (auto simp: wf_ident_def)
  then have "(\<exists>a. parts i = [a]) \<or> (\<exists>a b. parts i = [a, b])"
    by (cases "parts i" rule: remdups_adj.cases) auto
  with wf j show "(is_name (raw i) \<and> parts i = [raw i]) \<or>
     (\<exists>a b. is_name a \<and> is_name b \<and> raw i = a @ CHR ''.'' # b \<and> parts i = [a, b])"
    by (auto simp: wf_ident_def)
next
  assume "(is_name (raw i) \<and> parts i = [raw i]) \<or>
     (\<exists>a b. is_name a \<and> is_name b \<and> raw i = a @ CHR ''.'' # b \<and> parts i = [a, b])"
  then show "wf_ident i"
    by (auto simp: wf_ident_def split_on_step split_on_none is_name_no)
qed

lemma ident_iff: "is_token w \<Longrightarrow> ident w = Inr i \<longleftrightarrow> wf_ident i \<and> raw i = w"
proof -
  assume w: "is_token w"
  have m: "IDENT_matches w \<longleftrightarrow> wf_ident \<lparr>raw = w, parts = split_on (CHR ''.'') w\<rparr>"
    unfolding IDENT_matches_def IDENT_plain_iff [OF w] IDENT_dotted_iff [OF w] wf_ident_cases
    by (auto simp: split_on_step split_on_none is_name_no)
  show ?thesis
  proof
    assume "ident w = Inr i"
    with m show "wf_ident i \<and> raw i = w" by (auto simp: ident_def split: if_splits)
  next
    assume "wf_ident i \<and> raw i = w"
    then have "i = \<lparr>raw = w, parts = split_on (CHR ''.'') w\<rparr>" and "wf_ident i"
      by (auto simp: wf_ident_def)
    with m have "IDENT_matches w" by metis
    with \<open>i = _\<close> show "ident w = Inr i" by (simp add: ident_def)
  qed
qed

definition wf_rhs :: "rhs_value \<Rightarrow> bool" where
  "wf_rhs r = (case r of Param n \<Rightarrow> is_name n | Lit (CInt k) \<Rightarrow> 0 \<le> k \<and> small_int k | Lit (CStr s) \<Rightarrow> True)"

lemma wf_rhs_simps [simp]:
  "wf_rhs (Param n) \<longleftrightarrow> is_name n" "wf_rhs (Lit (CInt k)) \<longleftrightarrow> 0 \<le> k \<and> small_int k" "wf_rhs (Lit (CStr s))"
  by (simp_all add: wf_rhs_def)

lemma re_match_PARAM:
  assumes "is_name n"
  shows "re_match PARAM (CHR ''$'' # n) = Some ([''$'', [hd n], tl n, []], [])"
proof -
  from assms obtain c t where n: "n = c # t" "ident_start c" "list_all ident_char t"
    by (cases n) (auto simp: is_name_def)
  have "re_match [Star ident_char, Eos] (t @ []) = Some (t # [[]], [])"
    by (rule re_match_Star_run) (use n in \<open>auto simp: at_end_def\<close>)
  with n show ?thesis by (simp add: PARAM_def)
qed

lemma param_name: "is_name n \<Longrightarrow> param (CHR ''$'' # n) = Inr (Param n)"
  by (cases n) (simp_all add: param_def re_match_PARAM is_name_def)

lemma param_Inr:
  assumes "param w = Inr r"
  shows "\<exists>n. is_name n \<and> r = Param n"
proof -
  from assms obtain gs u where m: "re_match PARAM w = Some (gs, u)"
    and r: "r = Param (gs ! 1 @ gs ! 2)"
    by (auto simp: param_def split: option.splits)
  from re_match_sound [OF m]
  have "splits_as (One (\<lambda>x. x = CHR ''$'') # One ident_start # Star ident_char # [Eos]) gs u"
    by (simp add: PARAM_def)
  then obtain g gs' where "gs = g # gs'"
    and "splits_as (One ident_start # Star ident_char # [Eos]) gs' u"
    by (cases gs) auto
  then obtain c t gs'' where "gs = g # [c] # t # gs''" "is_name (c # t)"
    by (auto simp: splits_as_name)
  with r show ?thesis by auto
qed

lemma const_Inr: "const w = Inr r \<Longrightarrow> wf_rhs r"
  by (auto simp: const_def ebind_eq_Inr py_int_Inr split: if_splits)

lemma rhs_Inr: "rhs w = Inr r \<Longrightarrow> wf_rhs r"
  by (auto simp: rhs_def const_Inr dest: param_Inr split: if_splits)

section \<open>Well-formed statements\<close>

text \<open>Column positions of a statement hold tokens or, after \<open>rstrip(",")\<close>, prefixes of tokens:
  text without white space.\<close>

definition no_space :: "string \<Rightarrow> bool" where
  "no_space w \<longleftrightarrow> list_all (\<lambda>c. \<not> is_space c) w"

definition wf_predicate :: "where_pred \<Rightarrow> bool" where
  "wf_predicate p \<longleftrightarrow> is_token (p_column p) \<and> p_op p = ''='' \<and> wf_rhs (p_rhs p)"

definition wf_opt :: "('a \<Rightarrow> bool) \<Rightarrow> 'a option \<Rightarrow> bool" where
  "wf_opt P x = (case x of None \<Rightarrow> True | Some y \<Rightarrow> P y)"

lemma wf_opt_simps [simp]: "wf_opt P None" "wf_opt P (Some y) = P y"
  by (simp_all add: wf_opt_def)

definition wf_read :: "read_stmt \<Rightarrow> bool" where
  "wf_read s \<longleftrightarrow>
     wf_ident (r_table s) \<and> wf_opt (list_all no_space) (r_columns s) \<and>
     wf_opt wf_predicate (r_where s) \<and> wf_opt is_token (r_order_column s) \<and>
     (r_order_desc s \<longrightarrow> r_order_column s \<noteq> None) \<and> wf_opt (\<lambda>n. 0 \<le> n \<and> small_int n) (r_limit s)"

definition wf_insert :: "insert_stmt \<Rightarrow> bool" where
  "wf_insert s \<longleftrightarrow>
     wf_ident (i_table s) \<and> list_all (\<lambda>(f, r). CHR '','' \<notin> set f \<and> CHR '':'' \<notin> set f \<and> wf_rhs r) (i_bindings s)"

definition wf_update :: "update_stmt \<Rightarrow> bool" where
  "wf_update s \<longleftrightarrow>
     wf_ident (u_table s) \<and> u_bindings s \<noteq> [] \<and>
     list_all (\<lambda>(f, r). is_token f \<and> f \<notin> {''where'', ''returning''} \<and> wf_rhs r) (u_bindings s) \<and>
     wf_opt wf_predicate (u_where s) \<and> wf_opt (list_all no_space) (u_returning s)"

definition wf_delete :: "delete_stmt \<Rightarrow> bool" where
  "wf_delete s \<longleftrightarrow> wf_ident (d_table s) \<and> wf_opt wf_predicate (d_where s)"

fun wf_stmt :: "stmt \<Rightarrow> bool" where
  "wf_stmt (ReadStmt s) = wf_read s"
| "wf_stmt (InsertStmt s) = wf_insert s"
| "wf_stmt (UpdateStmt s) = wf_update s"
| "wf_stmt (DeleteStmt s) = wf_delete s"

lemma no_space_rstrip: "is_token w \<Longrightarrow> no_space (rstrip_comma w)"
  using set_rstrip_comma [of w] by (auto simp: is_token_def no_space_def list_all_iff)

lemma list_all_dropWhile_Cons:
  "dropWhile P xs = y # ys \<Longrightarrow> list_all Q xs \<Longrightarrow> list_all Q ys"
  using set_dropWhileD [of _ P xs] by (auto simp: list_all_iff)

lemma predicate_Inr:
  "predicate ts = Inr (p, rest) \<Longrightarrow> list_all is_token ts \<Longrightarrow> wf_predicate p \<and> list_all is_token rest"
  by (auto simp: predicate_def wf_predicate_def ebind_eq_Inr rhs_Inr split: list.splits if_splits)

lemma read_loop_wf:
  "read_loop ts st = Inr st' \<Longrightarrow> list_all is_token ts \<Longrightarrow> wf_read st \<Longrightarrow> wf_read st'"
proof (induction ts st rule: read_loop.induct)
  case (2 tok ts st)
  consider (cols) "tok = ''{''" | (whr) "tok = ''where''" | (ord) "tok = ''order''" | (lim) "tok = ''limit''"
    using "2.prems"(1) by (auto split: if_splits)
  then show ?case
  proof cases
    case cols
    with "2.prems" obtain y rest where d: "dropWhile (\<lambda>t. t \<noteq> ''}'') ts = y # rest"
      by (auto split: list.splits)
    have "list_all no_space (map rstrip_comma (takeWhile (\<lambda>t. t \<noteq> ''}'') ts))"
      using "2.prems"(2) by (auto simp: list_all_iff no_space_rstrip dest!: set_takeWhileD)
    with cols d "2.prems" "2.IH"(1) [OF cols d] show ?thesis
      by (simp add: wf_read_def list_all_dropWhile_Cons [OF d])
  next
    case whr
    with "2.prems" obtain p rest where p: "predicate ts = Inr (p, rest)"
      by (auto split: sum.splits)
    with whr "2.prems" "2.IH"(2) [OF _ whr p refl] predicate_Inr [OF p] show ?thesis
      by (simp add: wf_read_def)
  next
    case ord
    with "2.prems" "2.IH"(3,4,5) show ?thesis
      by (auto simp: wf_read_def split: list.splits if_splits)
  next
    case lim
    with "2.prems" "2.IH"(6) show ?thesis
      by (auto simp: wf_read_def py_int_Inr split: list.splits if_splits sum.splits)
  qed
qed simp

lemma parse_read_wf: "parse_read ts = Inr s \<Longrightarrow> list_all is_token ts \<Longrightarrow> wf_read s"
  by (auto simp: parse_read_def ebind_eq_Inr ident_iff split: list.splits elim!: read_loop_wf)
    (auto simp: wf_read_def)

lemma binding_Inr: "binding p = Inr (f, r) \<Longrightarrow> wf_rhs r \<and> set f \<subseteq> set p \<and> CHR '':'' \<notin> set f"
  by (auto simp: binding_def split_first_def py_strip_def ebind_eq_Inr rhs_Inr
      split: if_splits dest!: set_dropWhileD set_takeWhileD)

lemma parse_bindings_wf:
  assumes "parse_bindings inner = Inr bs"
  shows "list_all (\<lambda>(f, r). CHR '','' \<notin> set f \<and> CHR '':'' \<notin> set f \<and> wf_rhs r) bs"
proof (clarsimp simp: list_all_iff)
  fix f r
  assume "(f, r) \<in> set bs"
  with assms obtain w where w: "w \<in> set (split_on (CHR '','') inner)" and b: "binding (py_strip w) = Inr (f, r)"
    by (auto simp: parse_bindings_def dest!: emap_set)
  have "set (py_strip w) \<subseteq> set w"
    by (auto simp: py_strip_def dest!: set_dropWhileD)
  with binding_Inr [OF b] split_on_no_sep [OF w]
  show "CHR '','' \<notin> set f \<and> CHR '':'' \<notin> set f \<and> wf_rhs r" by auto
qed

lemma parse_insert_wf: "parse_insert ts = Inr s \<Longrightarrow> list_all is_token ts \<Longrightarrow> wf_insert s"
  by (auto simp: parse_insert_def wf_insert_def ebind_eq_Inr ident_iff parse_bindings_wf
      split: list.splits if_splits)

lemma set_loop_wf:
  "set_loop ts bs = Inr (bs', rest) \<Longrightarrow> list_all is_token ts \<Longrightarrow>
   list_all (\<lambda>(f, r). is_token f \<and> f \<notin> {''where'', ''returning''} \<and> wf_rhs r) bs \<Longrightarrow>
   list_all (\<lambda>(f, r). is_token f \<and> f \<notin> {''where'', ''returning''} \<and> wf_rhs r) bs' \<and>
   list_all is_token rest"
  by (induction ts bs rule: set_loop.induct) (auto simp: rhs_Inr split: if_splits list.splits sum.splits)

lemma update_loop_wf:
  "update_loop ts c = Inr c' \<Longrightarrow> list_all is_token ts \<Longrightarrow>
   wf_opt wf_predicate (fst c) \<Longrightarrow> wf_opt (list_all no_space) (snd c) \<Longrightarrow>
   wf_opt wf_predicate (fst c') \<and> wf_opt (list_all no_space) (snd c')"
proof (induction ts c rule: update_loop.induct)
  case (2 tok ts w r)
  then show ?case
    by (auto simp: list_all_iff no_space_rstrip split: if_splits sum.splits dest!: predicate_Inr)
qed auto

lemma parse_update_wf: "parse_update ts = Inr s \<Longrightarrow> list_all is_token ts \<Longrightarrow> wf_update s"
  by (auto simp: parse_update_def wf_update_def ebind_eq_Inr ident_iff
      split: list.splits if_splits dest!: set_loop_wf update_loop_wf)

lemma delete_where_wf: "delete_where ts = Inr w \<Longrightarrow> list_all is_token ts \<Longrightarrow> wf_opt wf_predicate w"
  by (auto simp: delete_where_def ebind_eq_Inr split: list.splits if_splits dest!: predicate_Inr)

lemma parse_delete_wf:
  assumes "parse_delete ts = Inr s" "list_all is_token ts"
  shows "wf_delete s"
proof -
  have "list_all is_token (tl ts)" using assms(2) by (cases ts) auto
  with assms(1) show ?thesis
    by (auto simp: parse_delete_def wf_delete_def ebind_eq_Inr ident_iff Let_def delete_where_wf
        split: list.splits if_splits)
qed

lemma parse_tokens_wf:
  "parse_tokens ts = Inr s \<Longrightarrow> list_all is_token ts \<Longrightarrow> wf_stmt s"
  by (auto simp: parse_tokens_def ebind_eq_Inr Let_def parse_read_wf parse_insert_wf parse_update_wf
      parse_delete_wf split: if_splits)

lemma parse_Inr_tokens: "parse src = Inr s \<Longrightarrow> parse_tokens (split_ws (py_strip src)) = Inr s"
  by (auto simp: parse_def ebind_eq_Inr Let_def split: if_splits)

section \<open>Exceptions of the parser\<close>

text \<open>A digit for \<open>isdigit\<close> that \<open>int\<close> does not read: a superscript.\<close>

definition superscript :: "char \<Rightarrow> bool" where
  "superscript c \<longleftrightarrow> is_digit c \<and> \<not> is_decimal c"

text \<open>A run of decimal digits that is too long for \<open>int\<close>.\<close>

definition long_number :: "string \<Rightarrow> bool" where
  "long_number w \<longleftrightarrow> (\<exists>v. sublist v w \<and> list_all is_decimal v \<and> \<not> within_limit v)"

definition clean :: "string \<Rightarrow> bool" where
  "clean w \<longleftrightarrow> list_all (\<lambda>c. \<not> superscript c) w \<and> \<not> long_number w"

text \<open>\<open>parser_exc b e\<close>: a \<open>ParseError\<close> or, unless \<open>b\<close> says that all tokens are clean, the
  \<open>ValueError\<close> of \<open>int\<close>.\<close>

definition parser_exc :: "bool \<Rightarrow> exc \<Rightarrow> bool" where
  "parser_exc b e \<longleftrightarrow> (\<exists>f. e = ParseError f) \<or> (e = ValueError \<and> \<not> b)"

lemma parser_exc_ParseError [simp]: "parser_exc b (ParseError f)"
  by (simp add: parser_exc_def)

lemma clean_sublist: "clean w \<Longrightarrow> sublist v w \<Longrightarrow> clean v"
  unfolding clean_def long_number_def
  using set_mono_sublist [of v w] sublist_order.order_trans [of _ v w] by (auto simp: list_all_iff)

lemma clean_digits: "isdigit w \<Longrightarrow> clean w \<Longrightarrow> list_all is_decimal w \<and> within_limit w"
  unfolding clean_def long_number_def isdigit_def superscript_def list_all_iff by blast

lemma py_int_exc: "isdigit w \<Longrightarrow> py_int w = Inl e \<Longrightarrow> (b \<longrightarrow> clean w) \<Longrightarrow> parser_exc b e"
  using clean_digits [of w] by (auto simp: py_int_def isdigit_def parser_exc_def split: if_splits)

lemma rhs_exc: "rhs w = Inl e \<Longrightarrow> (b \<longrightarrow> clean w) \<Longrightarrow> parser_exc b e"
  by (auto simp: rhs_def param_def const_def ebind_eq_Inl py_int_exc split: if_splits option.splits)

lemma ident_exc: "ident w = Inl e \<Longrightarrow> parser_exc b e"
  by (auto simp: ident_def split: if_splits)

abbreviation all_clean :: "bool \<Rightarrow> string list \<Rightarrow> bool" where
  "all_clean b ts \<equiv> (b \<longrightarrow> list_all clean ts)"

lemma predicate_exc: "predicate ts = Inl e \<Longrightarrow> all_clean b ts \<Longrightarrow> parser_exc b e"
  by (auto simp: predicate_def ebind_eq_Inl rhs_exc split: list.splits if_splits)

lemma predicate_rest: "predicate ts = Inr (p, rest) \<Longrightarrow> all_clean b ts \<Longrightarrow> all_clean b rest"
  by (auto simp: predicate_def ebind_eq_Inr split: list.splits if_splits)

lemma read_loop_exc: "read_loop ts st = Inl e \<Longrightarrow> all_clean b ts \<Longrightarrow> parser_exc b e"
proof (induction ts st rule: read_loop.induct)
  case (2 tok ts st)
  consider (cols) "tok = ''{''" | (whr) "tok = ''where''" | (ord) "tok = ''order''" | (lim) "tok = ''limit''"
    | (other) "tok \<notin> {''{'', ''where'', ''order'', ''limit''}" by auto
  then show ?case
  proof cases
    case cols
    show ?thesis
    proof (cases "dropWhile (\<lambda>t. t \<noteq> ''}'') ts")
      case Nil
      with cols "2.prems" show ?thesis by auto
    next
      case (Cons y rest)
      with "2.IH"(1) [OF cols Cons] "2.prems" cols list_all_dropWhile_Cons [OF Cons]
      show ?thesis by auto
    qed
  next
    case whr
    show ?thesis
    proof (cases "predicate ts")
      case (Inl e')
      with whr "2.prems" predicate_exc [of ts e b] show ?thesis by auto
    next
      case (Inr pr)
      then obtain p rest where pr: "predicate ts = Inr (p, rest)" by (cases pr) auto
      with whr "2.prems" "2.IH"(2) [OF _ whr pr refl] predicate_rest [OF pr, of b]
      show ?thesis by auto
    qed
  next
    case ord
    with "2.prems" "2.IH"(3,4,5) show ?thesis
      by (auto split: list.splits if_splits)
  next
    case lim
    show ?thesis
    proof (cases ts)
      case (Cons n rest)
      show ?thesis
      proof (cases "py_int n")
        case (Inl e')
        with lim Cons "2.prems" py_int_exc [of n e b] show ?thesis
          by (auto split: if_splits)
      next
        case (Inr k)
        with lim Cons "2.prems" "2.IH"(6) [OF _ _ _ lim Cons _ Inr] show ?thesis
          by (auto split: if_splits)
      qed
    qed (use lim "2.prems" in auto)
  next
    case other
    with "2.prems" show ?thesis by auto
  qed
qed simp

lemma parse_read_exc: "parse_read ts = Inl e \<Longrightarrow> all_clean b ts \<Longrightarrow> parser_exc b e"
  by (auto simp: parse_read_def ebind_eq_Inl ident_exc read_loop_exc split: list.splits)

text \<open>Splitting and stripping cut a text into parts of it.\<close>

lemma sublist_trans: "sublist u v \<Longrightarrow> sublist v w \<Longrightarrow> sublist u w"
  by (rule sublist_order.order_trans)

lemma split_on_parts: "split_on c s = v # vs \<Longrightarrow> prefix v s \<and> (\<forall>w\<in>set vs. sublist w s)"
proof (induction s arbitrary: v vs)
  case (Cons x s)
  obtain u us where u: "split_on c s = u # us" by (cases "split_on c s") auto
  have "prefix u s" "\<forall>w\<in>set us. sublist w s" using Cons.IH [OF u] by simp_all
  then have "prefix u s" "\<forall>w\<in>set (u # us). sublist w s" by auto
  moreover have "split_on c (x # s) = (if x = c then [] # u # us else (x # u) # us)" by (simp add: u)
  with Cons.prems have "v # vs = (if x = c then [] # u # us else (x # u) # us)" by (simp only:)
  ultimately show ?case by (auto simp: sublist_Cons_right split: if_splits)
qed simp

lemma sublist_split_on: "w \<in> set (split_on c s) \<Longrightarrow> sublist w s"
  using split_on_parts [of c s] by (cases "split_on c s") auto

lemma sublist_py_strip: "sublist (py_strip s) s"
proof -
  have "sublist (py_strip s) (dropWhile is_space s)"
    unfolding py_strip_def sublist_rev_left by (rule sublist_dropWhile)
  then show ?thesis by (rule sublist_trans) (rule sublist_dropWhile)
qed

lemma sublist_split_first: "sublist (snd (split_first c s)) s"
  unfolding split_first_def snd_conv by (rule sublist_trans [OF sublist_tl sublist_dropWhile])

lemma parse_bindings_exc:
  assumes "parse_bindings inner = Inl e" "b \<longrightarrow> clean inner"
  shows "parser_exc b e"
proof -
  from assms obtain w where w: "w \<in> set (split_on (CHR '','') inner)" and e: "binding (py_strip w) = Inl e"
    by (auto simp: parse_bindings_def dest!: emap_Inl)
  have "sublist (py_strip (snd (split_first (CHR '':'') (py_strip w)))) inner"
    using sublist_split_on [OF w] sublist_py_strip sublist_split_first sublist_trans by metis
  with e assms(2) show ?thesis
    by (auto simp: binding_def ebind_eq_Inl split: if_splits prod.splits elim!: rhs_exc intro: clean_sublist)
qed

text \<open>A run of digits in a text of words lies in one of them.\<close>

lemma digits_blank:
  assumes "sublist v (x @ CHR '' '' # y)" "list_all is_decimal v"
  shows "sublist v x \<or> sublist v y"
proof -
  have blank: "\<not> is_decimal (CHR '' '')" by code_simp
  from assms(1) consider "sublist v x" | "sublist v (CHR '' '' # y)"
    | v1 v2 where "v = v1 @ v2" "suffix v1 x" "prefix v2 (CHR '' '' # y)"
    by (auto simp: sublist_append)
  then show ?thesis
  proof cases
    case 2
    then consider "prefix v (CHR '' '' # y)" | "sublist v y" by (auto simp: sublist_Cons_right)
    then show ?thesis using assms(2) blank by cases (auto simp: prefix_Cons)
  next
    case 3
    then have "v2 = []" using assms(2) blank by (auto simp: prefix_Cons)
    with 3 show ?thesis by (auto intro: suffix_imp_sublist)
  qed simp
qed

lemma clean_blank: "clean x \<Longrightarrow> clean y \<Longrightarrow> clean (x @ CHR '' '' # y)"
proof -
  assume xy: "clean x" "clean y"
  have "\<not> long_number (x @ CHR '' '' # y)"
    using xy digits_blank unfolding clean_def long_number_def by blast
  moreover have "\<not> superscript (CHR '' '')" by code_simp
  ultimately show ?thesis using xy by (simp add: clean_def)
qed

lemma clean_Nil [simp]: "clean []"
  by (simp add: clean_def long_number_def within_limit_def MAX_STR_DIGITS_def)

lemma clean_join: "list_all clean ws \<Longrightarrow> clean (join '' '' ws)"
  by (induction "'' ''" ws rule: join.induct) (simp_all add: clean_blank)

lemma list_all_butlast: "list_all P xs \<Longrightarrow> list_all P (butlast xs)"
  by (auto simp: list_all_iff dest: in_set_butlastD)

lemma parse_insert_exc: "parse_insert ts = Inl e \<Longrightarrow> all_clean b ts \<Longrightarrow> parser_exc b e"
  by (auto simp: parse_insert_def ebind_eq_Inl ident_exc split: list.splits if_splits
      elim!: parse_bindings_exc intro!: clean_join list_all_butlast)

lemma set_loop_exc: "set_loop ts bs = Inl e \<Longrightarrow> all_clean b ts \<Longrightarrow> parser_exc b e"
  by (induction ts bs rule: set_loop.induct) (auto simp: rhs_exc split: if_splits list.splits sum.splits)

lemma set_loop_rest: "set_loop ts bs = Inr (bs', rest) \<Longrightarrow> all_clean b ts \<Longrightarrow> all_clean b rest"
  by (induction ts bs rule: set_loop.induct) (auto split: if_splits list.splits sum.splits)

lemma update_loop_exc: "update_loop ts c = Inl e \<Longrightarrow> all_clean b ts \<Longrightarrow> parser_exc b e"
proof (induction ts c rule: update_loop.induct)
  case (2 tok ts w r)
  show ?case
  proof (cases "predicate ts")
    case (Inl e')
    with "2.prems" predicate_exc [of ts e b] show ?thesis
      by (auto split: if_splits)
  next
    case (Inr pr)
    then obtain p rest where pr: "predicate ts = Inr (p, rest)" by (cases pr) auto
    with "2.prems" "2.IH" [OF _ pr refl] predicate_rest [OF pr, of b] show ?thesis
      by (auto split: if_splits)
  qed
qed auto

lemma parse_update_exc: "parse_update ts = Inl e \<Longrightarrow> all_clean b ts \<Longrightarrow> parser_exc b e"
  by (auto simp: parse_update_def ebind_eq_Inl ident_exc split: list.splits if_splits
      elim!: set_loop_exc update_loop_exc dest!: set_loop_rest [of _ _ _ _ b])

lemma delete_where_exc: "delete_where ts = Inl e \<Longrightarrow> all_clean b ts \<Longrightarrow> parser_exc b e"
  by (auto simp: delete_where_def ebind_eq_Inl predicate_exc split: list.splits if_splits)

lemma parse_delete_exc:
  assumes "parse_delete ts = Inl e" "all_clean b ts"
  shows "parser_exc b e"
proof -
  have "all_clean b (tl ts)" using assms(2) by (cases ts) auto
  with assms(1) show ?thesis
    by (auto simp: parse_delete_def ebind_eq_Inl ident_exc Let_def delete_where_exc
        split: list.splits if_splits)
qed

lemma clean_split_ws: "clean s \<Longrightarrow> list_all clean (split_ws s)"
proof (induction s rule: split_ws.induct)
  case (1 s)
  show ?case
  proof (cases "dropWhile is_space s")
    case Nil
    then have "split_ws s = []" by (rule split_ws_none)
    then show ?thesis by simp
  next
    case (Cons c t)
    have ct: "clean (c # t)"
      using clean_sublist [OF "1.prems" sublist_dropWhile [of is_space]] Cons by simp
    have "sublist (dropWhile (\<lambda>x. \<not> is_space x) t) (c # t)"
      by (rule sublist_trans [OF sublist_dropWhile]) (simp add: sublist_Cons_right)
    then have "list_all clean (split_ws (dropWhile (\<lambda>x. \<not> is_space x) t))"
      by (intro "1.IH" [OF Cons] clean_sublist [OF ct])
    moreover have "sublist (c # takeWhile (\<lambda>x. \<not> is_space x) t) (c # t)"
      by (simp add: sublist_Cons_right takeWhile_is_prefix)
    then have "clean (c # takeWhile (\<lambda>x. \<not> is_space x) t)"
      by (rule clean_sublist [OF ct])
    ultimately show ?thesis
      unfolding split_ws_some [OF Cons] by simp
  qed
qed

lemma parse_tokens_exc: "parse_tokens ts = Inl e \<Longrightarrow> all_clean b ts \<Longrightarrow> parser_exc b e"
  by (auto simp: parse_tokens_def ebind_eq_Inl Let_def parse_read_exc parse_insert_exc parse_update_exc
      parse_delete_exc split: if_splits)

lemma parse_exc: "parse src = Inl e \<Longrightarrow> (b \<longrightarrow> clean src) \<Longrightarrow> parser_exc b e"
  by (auto simp: parse_def ebind_eq_Inl Let_def reject_forbidden_def split: if_splits
      elim!: parse_tokens_exc intro!: clean_split_ws clean_sublist [OF _ sublist_py_strip])

section \<open>Verbs and forbidden text\<close>

lemma lower_verbs [simp]:
  "lower ''read'' = ''read''" "lower ''insert'' = ''insert''" "lower ''update'' = ''update''"
  "lower ''delete'' = ''delete''"
  by code_simp+

lemma parse_tokens_verbs:
  "lower v = ''read'' \<Longrightarrow> parse_tokens (v # ts) = ebind (parse_read (v # ts)) (\<lambda>s. Inr (ReadStmt s))"
  "lower v = ''insert'' \<Longrightarrow> parse_tokens (v # ts) = ebind (parse_insert (v # ts)) (\<lambda>s. Inr (InsertStmt s))"
  "lower v = ''update'' \<Longrightarrow> parse_tokens (v # ts) = ebind (parse_update (v # ts)) (\<lambda>s. Inr (UpdateStmt s))"
  "lower v = ''delete'' \<Longrightarrow> parse_tokens (v # ts) = ebind (parse_delete (v # ts)) (\<lambda>s. Inr (DeleteStmt s))"
  by (simp_all add: parse_tokens_def)

text \<open>Searching a literal is the substring test.\<close>

lemma re_match_lit_prefix: "re_match (lit w) s \<noteq> None \<longleftrightarrow> prefix w s"
proof (induction w arbitrary: s)
  case (Cons c w)
  then show ?case by (cases s) (auto simp: lit_def simp del: not_None_eq)
qed simp

lemma re_search_lit: "re_search (lit w) s \<longleftrightarrow> in_str w s"
  unfolding in_str_def
  by (induction s) (auto simp: re_match_lit_prefix sublist_Cons_right simp del: not_None_eq)

lemma reject_forbidden_eq:
  "reject_forbidden src =
     (if in_str ''${'' src \<or> in_str '';'' src then Inl (ParseError Forbidden_token) else Inr ())"
  by (simp only: reject_forbidden_def re_search_lit)

section \<open>Where the parser is lenient\<close>

text \<open>In a \<open>read\<close>, a later \<open>where\<close> clause replaces an earlier one.\<close>

lemma last_where_wins:
  assumes "rhs v = Inr r"
  shows "parse_tokens (''read'' # t # ''where'' # c # ''='' # v # ''where'' # c' # ''='' # v' # rest) =
         parse_tokens (''read'' # t # ''where'' # c' # ''='' # v' # rest)"
  using assms by (cases "ident t"; cases "rhs v'") (simp_all add: parse_tokens_verbs parse_read_def predicate_def)

text \<open>Verbs are recognised in any case, except that \<open>update\<close> must be in lower case.\<close>

lemma verb_case:
  "lower v \<in> {''read'', ''insert'', ''delete''} \<Longrightarrow> parse_tokens (v # ts) = parse_tokens (lower v # ts)"
  "lower v = ''update'' \<Longrightarrow> v \<noteq> ''update'' \<Longrightarrow> parse_tokens (v # ts) = Inl (ParseError Update_malformed)"
  by (auto simp: parse_tokens_verbs parse_read_def parse_insert_def parse_delete_def parse_update_def
      split: list.split)

end
