(* ===== verification/Liq_Roundtrip.thy ===== *)
theory Liq_Roundtrip
  imports Liq_Wf
begin

text \<open>
  A printer for statements, following the examples of \<open>liq/README.md\<close>, and the proof that the
  parser of \<open>liq/parser.py\<close> reads back every printable statement: the grammar is not lossy.
  The printer is the specification side; it models no code.
\<close>

section \<open>The printer\<close>

fun commas :: "string list \<Rightarrow> string list" where
  "commas [] = []"
| "commas [w] = [w]"
| "commas (w # v # ws) = (w @ '','') # commas (v # ws)"

fun print_rhs :: "rhs_value \<Rightarrow> string" where
  "print_rhs (Param n) = CHR ''$'' # n"
| "print_rhs (Lit (CInt k)) = show_nat (nat k)"
| "print_rhs (Lit (CStr s)) = CHR 0x27 # s @ [CHR 0x27]"

definition print_eq :: "string \<Rightarrow> rhs_value \<Rightarrow> string list" where
  "print_eq f r = [f, ''='', print_rhs r]"

definition print_where :: "where_pred option \<Rightarrow> string list" where
  "print_where w = (case w of None \<Rightarrow> [] | Some p \<Rightarrow> ''where'' # print_eq (p_column p) (p_rhs p))"

definition print_limit :: "int option \<Rightarrow> string list" where
  "print_limit l = (case l of None \<Rightarrow> [] | Some n \<Rightarrow> [''limit'', show_nat (nat n)])"

definition print_order :: "string option \<Rightarrow> bool \<Rightarrow> string list" where
  "print_order oc d =
     (case oc of None \<Rightarrow> [] | Some c \<Rightarrow> [''order'', c, if d then ''desc'' else ''asc''])"

definition print_columns :: "string list option \<Rightarrow> string list" where
  "print_columns cs = (case cs of None \<Rightarrow> [] | Some ws \<Rightarrow> ''{'' # commas ws @ [''}''])"

definition print_returning :: "string list option \<Rightarrow> string list" where
  "print_returning cs = (case cs of None \<Rightarrow> [] | Some ws \<Rightarrow> ''returning'' # commas ws)"

fun print_bindings :: "bindings \<Rightarrow> string list" where
  "print_bindings [] = []"
| "print_bindings [(f, r)] = [f @ '':'', print_rhs r]"
| "print_bindings ((f, r) # b # bs) = [f @ '':'', print_rhs r @ '',''] @ print_bindings (b # bs)"

fun print_tokens :: "stmt \<Rightarrow> string list" where
  "print_tokens (ReadStmt s) =
     [''read'', raw (r_table s)] @ print_columns (r_columns s) @ print_where (r_where s) @
     print_order (r_order_column s) (r_order_desc s) @ print_limit (r_limit s)"
| "print_tokens (InsertStmt s) =
     [''insert'', raw (i_table s), ''{''] @ print_bindings (i_bindings s) @ [''}'']"
| "print_tokens (UpdateStmt s) =
     [''update'', raw (u_table s), ''set''] @ concat (map (\<lambda>(f, r). print_eq f r) (u_bindings s)) @
     print_where (u_where s) @ print_returning (u_returning s)"
| "print_tokens (DeleteStmt s) = [''delete'', ''from'', raw (d_table s)] @ print_where (d_where s)"

definition print_stmt :: "stmt \<Rightarrow> string" where
  "print_stmt s = join '' '' (print_tokens s)"

section \<open>Printable statements\<close>

text \<open>
  Beyond \<open>wf_stmt\<close>, text has to survive tokenisation: no white space in string constants, no
  characters with a meaning of their own (\<open>$\<close>, \<open>;\<close>, and \<open>,\<close> between list elements).
\<close>

definition quiet :: "string \<Rightarrow> bool" where
  "quiet w \<longleftrightarrow> no_space w \<and> CHR ''$'' \<notin> set w \<and> CHR '';'' \<notin> set w"

definition word :: "string \<Rightarrow> bool" where
  "word w \<longleftrightarrow> w \<noteq> [] \<and> quiet w"

definition column :: "string \<Rightarrow> bool" where
  "column w \<longleftrightarrow> word w \<and> w \<noteq> ''}'' \<and> last w \<noteq> CHR '',''"

definition printable_rhs :: "rhs_value \<Rightarrow> bool" where
  "printable_rhs r \<longleftrightarrow> wf_rhs r \<and> (case r of Lit (CStr s) \<Rightarrow> quiet s | _ \<Rightarrow> True)"

definition printable_predicate :: "where_pred \<Rightarrow> bool" where
  "printable_predicate p \<longleftrightarrow> word (p_column p) \<and> p_op p = ''='' \<and> printable_rhs (p_rhs p)"

fun printable :: "stmt \<Rightarrow> bool" where
  "printable (ReadStmt s) \<longleftrightarrow>
     wf_read s \<and> wf_opt (list_all column) (r_columns s) \<and> wf_opt printable_predicate (r_where s) \<and>
     wf_opt word (r_order_column s)"
| "printable (InsertStmt s) \<longleftrightarrow>
     wf_insert s \<and>
     list_all (\<lambda>(f, r). word f \<and> printable_rhs r \<and> CHR '','' \<notin> set (print_rhs r)) (i_bindings s)"
| "printable (UpdateStmt s) \<longleftrightarrow>
     wf_update s \<and> list_all (\<lambda>(f, r). word f \<and> printable_rhs r) (u_bindings s) \<and>
     wf_opt printable_predicate (u_where s) \<and> wf_opt (list_all column) (u_returning s)"
| "printable (DeleteStmt s) \<longleftrightarrow> wf_delete s \<and> wf_opt printable_predicate (d_where s)"

section \<open>Printed tokens are tokens and contain nothing forbidden\<close>

text \<open>A safe token has no semicolon, and a dollar only in front of a parameter name.\<close>

definition safe_tok :: "string \<Rightarrow> bool" where
  "safe_tok w \<longleftrightarrow> is_token w \<and> CHR '';'' \<notin> set w \<and>
     (CHR ''$'' \<notin> set w \<or> (\<exists>c n. w = CHR ''$'' # c # n \<and> c \<noteq> CHR ''{'' \<and> CHR ''$'' \<notin> set (c # n)))"

interpretation dollar_brace: headed_pattern "lit ''${''" "\<lambda>x. x = CHR ''$''"
  by unfold_locales simp

interpretation semicolon: headed_pattern "lit '';''" "\<lambda>x. x = CHR '';''"
  by unfold_locales simp

lemma dollar_search_other: "CHR ''$'' \<notin> set w \<Longrightarrow> re_search (lit ''${'') (w @ s) \<longleftrightarrow> re_search (lit ''${'') s"
  by (induction w) auto

lemma dollar_search_tok:
  assumes "safe_tok w" "s = [] \<or> hd s \<noteq> CHR ''{''"
  shows "re_search (lit ''${'') (w @ s) \<longleftrightarrow> re_search (lit ''${'') s"
proof (cases "CHR ''$'' \<in> set w")
  case True
  with assms(1) obtain c n where w: "w = CHR ''$'' # c # n" "c \<noteq> CHR ''{''" "CHR ''$'' \<notin> set (c # n)"
    by (auto simp: safe_tok_def)
  then show ?thesis
    using dollar_search_other [of "c # n" s] by simp
qed (use dollar_search_other [of w s] in simp)

lemma dollar_search_join: "list_all safe_tok ws \<Longrightarrow> \<not> re_search (lit ''${'') (join '' '' ws)"
proof (induction "'' ''" ws rule: join.induct)
  case (2 w)
  then show ?case using dollar_search_tok [of w "[]"] by simp
next
  case (3 w v ws)
  then show ?case
    using dollar_search_tok [of w "CHR '' '' # join '' '' (v # ws)"] by simp
qed simp

lemma semicolon_join: "list_all safe_tok ws \<Longrightarrow> CHR '';'' \<notin> set (join '' '' ws)"
  by (induction "'' ''" ws rule: join.induct) (auto simp: safe_tok_def)

lemma reject_forbidden_join: "list_all safe_tok ws \<Longrightarrow> reject_forbidden (join '' '' ws) = Inr ()"
  using dollar_search_join [of ws] semicolon_join [of ws] semicolon.search_head [of "join '' '' ws"]
  by (auto simp: reject_forbidden_def)

lemma word_safe: "word w \<Longrightarrow> safe_tok w"
  by (auto simp: word_def quiet_def safe_tok_def is_token_def no_space_def)

lemma name_safe: "is_name w \<Longrightarrow> safe_tok w"
  by (auto simp: safe_tok_def is_name_token is_name_no)

lemma dotted_safe:
  assumes "is_name a" "is_name b"
  shows "safe_tok (a @ CHR ''.'' # b)"
proof -
  have "is_token (a @ CHR ''.'' # b)"
    using assms [THEN is_name_token] by (simp add: is_token_def)
  then show ?thesis
    using assms by (simp add: safe_tok_def is_name_no)
qed

lemma ident_safe: "wf_ident i \<Longrightarrow> safe_tok (raw i)"
  unfolding wf_ident_cases by (elim disjE exE conjE) (simp_all add: dotted_safe name_safe)

lemma show_nat_no: "\<not> is_decimal c \<Longrightarrow> c \<notin> set (show_nat n)"
  using show_nat_decimal [of n] by (auto simp: list_all_iff)

lemma not_decimal_chars [simp]:
  "\<not> is_decimal (CHR ''$'')" "\<not> is_decimal (CHR '';'')" "\<not> is_decimal (CHR '','')"
  by (simp_all add: is_decimal_def ord_def)

lemma show_nat_safe: "safe_tok (show_nat n)"
  by (simp add: safe_tok_def show_nat_no)

lemma rhs_safe: "printable_rhs r \<Longrightarrow> safe_tok (print_rhs r)"
proof (induction r rule: print_rhs.induct)
  case (1 n)
  then obtain c t where "n = c # t" "ident_start c" "is_name n"
    by (cases n) (auto simp: printable_rhs_def is_name_def)
  then show ?case
    using is_name_token [of n] is_name_no [of n]
    by (auto simp: safe_tok_def is_token_def list_all_iff)
next
  case (2 k)
  then show ?case by (simp add: show_nat_safe)
next
  case (3 s)
  then show ?case
    by (auto simp: safe_tok_def printable_rhs_def quiet_def is_token_def no_space_def)
qed

lemma safe_snoc: "safe_tok w \<Longrightarrow> c \<in> {CHR '','', CHR '':''} \<Longrightarrow> safe_tok (w @ [c])"
  by (auto simp: safe_tok_def is_token_def)

lemma commas_safe: "list_all safe_tok ws \<Longrightarrow> list_all safe_tok (commas ws)"
  by (induction ws rule: commas.induct) (auto simp: safe_snoc)

lemma word_toks [simp]:
  "safe_tok ''read''" "safe_tok ''insert''" "safe_tok ''update''" "safe_tok ''delete''" "safe_tok ''from''"
  "safe_tok ''where''" "safe_tok ''order''" "safe_tok ''asc''" "safe_tok ''desc''" "safe_tok ''limit''"
  "safe_tok ''{''" "safe_tok ''}''" "safe_tok ''returning''" "safe_tok ''set''" "safe_tok ''=''"
  by (simp_all add: safe_tok_def is_token_def char_class_defs ord_def)

lemma where_safe: "wf_opt printable_predicate w \<Longrightarrow> list_all safe_tok (print_where w)"
  by (auto simp: print_where_def print_eq_def printable_predicate_def word_safe rhs_safe split: option.splits)

lemma columns_safe: "list_all column ws \<Longrightarrow> list_all safe_tok (commas ws)"
  by (rule commas_safe) (auto simp: list_all_iff column_def word_safe)

lemma bindings_safe:
  "list_all (\<lambda>(f, r). word f \<and> printable_rhs r \<and> P r) bs \<Longrightarrow> list_all safe_tok (print_bindings bs)"
  by (induction bs rule: print_bindings.induct) (auto simp: safe_snoc word_safe rhs_safe)

lemma print_tokens_safe: "printable s \<Longrightarrow> list_all safe_tok (print_tokens s)"
proof (cases s)
  case (ReadStmt r)
  assume "printable s"
  with ReadStmt show ?thesis
    by (auto simp: wf_read_def ident_safe where_safe columns_safe print_columns_def print_order_def
        print_limit_def word_safe show_nat_safe split: option.splits)
next
  case (InsertStmt r)
  assume "printable s"
  with InsertStmt show ?thesis
    by (auto simp: wf_insert_def ident_safe bindings_safe)
next
  case (UpdateStmt r)
  assume "printable s"
  with UpdateStmt show ?thesis
    by (auto simp: wf_update_def ident_safe where_safe columns_safe print_returning_def
        list_all_iff [of _ "concat _"] print_eq_def split: option.splits)
      (auto simp: list_all_iff word_safe rhs_safe)
next
  case (DeleteStmt r)
  assume "printable s"
  with DeleteStmt show ?thesis
    by (auto simp: wf_delete_def ident_safe where_safe)
qed

lemma parse_print_tokens:
  assumes "printable s"
  shows "parse (print_stmt s) = parse_tokens (print_tokens s)"
proof -
  have safe: "list_all safe_tok (print_tokens s)"
    using assms by (rule print_tokens_safe)
  then have toks: "list_all is_token (print_tokens s)"
    by (auto simp: list_all_iff safe_tok_def)
  have "print_tokens s \<noteq> []" by (cases s) auto
  with safe toks show ?thesis
    by (simp add: parse_def print_stmt_def reject_forbidden_join py_strip_join split_ws_join join_eq_Nil)
qed


section \<open>Reading the printed tokens back\<close>

lemma show_nat_no_dollar: "\<not> starts_with (show_nat n) ''$''"
  using show_nat_no [of "CHR ''$''" n] by (cases "show_nat n") (auto simp: starts_with_def)

lemma rhs_print: "printable_rhs r \<Longrightarrow> rhs (print_rhs r) = Inr r"
proof (induction r rule: print_rhs.induct)
  case (1 n)
  then show ?case
    by (simp add: rhs_def starts_with_def printable_rhs_def param_name)
next
  case (2 k)
  then show ?case
    by (simp add: rhs_def show_nat_no_dollar const_def printable_rhs_def py_int_show)
next
  case (3 s)
  then show ?case
    by (simp add: rhs_def starts_with_def ends_with_def const_def isdigit_def suffix_def
        char_class_defs ord_def butlast_append)
qed

lemma predicate_print:
  "printable_predicate p \<Longrightarrow> predicate (print_eq (p_column p) (p_rhs p) @ ts) = Inr (p, ts)"
  by (simp add: predicate_def print_eq_def printable_predicate_def rhs_print)

lemma ident_print: "wf_ident i \<Longrightarrow> ident (raw i) = Inr i"
  using ident_iff [of "raw i" i] ident_safe [of i] by (simp add: safe_tok_def)

lemma commas_not_brace: "list_all column ws \<Longrightarrow> w \<in> set (commas ws) \<Longrightarrow> w \<noteq> ''}''"
  by (induction ws rule: commas.induct) (auto simp: column_def)

lemma rstrip_commas: "list_all column ws \<Longrightarrow> map rstrip_comma (commas ws) = ws"
  by (induction ws rule: commas.induct) (auto simp: column_def rstrip_comma_id)

text \<open>Each clause of \<open>read\<close> is consumed by one round of the loop.\<close>

lemma read_loop_columns:
  assumes "wf_opt (list_all column) cs"
  shows "read_loop (print_columns cs @ ts) st =
    read_loop ts (case cs of None \<Rightarrow> st | Some ws \<Rightarrow> st\<lparr>r_columns := Some ws\<rparr>)"
proof (cases cs)
  case (Some ws)
  with assms have ws: "list_all column ws" by simp
  have d: "dropWhile (\<lambda>t. t \<noteq> ''}'') (commas ws @ ''}'' # ts) = ''}'' # ts"
    and t: "takeWhile (\<lambda>t. t \<noteq> ''}'') (commas ws @ ''}'' # ts) = commas ws"
    using commas_not_brace [OF ws] by (auto intro!: dropWhile_stop takeWhile_stop)
  show ?thesis
    by (simp add: Some print_columns_def d t rstrip_commas [OF ws])
qed (simp add: print_columns_def)

lemma read_loop_where:
  "wf_opt printable_predicate w \<Longrightarrow> read_loop (print_where w @ ts) st =
    read_loop ts (case w of None \<Rightarrow> st | Some p \<Rightarrow> st\<lparr>r_where := Some p\<rparr>)"
  by (cases w) (simp_all add: print_where_def predicate_print)

lemma read_loop_order:
  "read_loop (print_order oc d @ ts) st =
    read_loop ts (case oc of None \<Rightarrow> st | Some c \<Rightarrow> st\<lparr>r_order_column := Some c, r_order_desc := d\<rparr>)"
  by (cases oc) (simp_all add: print_order_def)

lemma read_loop_limit:
  "wf_opt (\<lambda>n. 0 \<le> n \<and> small_int n) l \<Longrightarrow> read_loop (print_limit l) st =
    Inr (case l of None \<Rightarrow> st | Some n \<Rightarrow> st\<lparr>r_limit := Some n\<rparr>)"
  by (cases l) (simp_all add: print_limit_def py_int_show)

lemma parse_read_print:
  assumes "printable (ReadStmt s)"
  shows "parse_tokens (print_tokens (ReadStmt s)) = Inr (ReadStmt s)"
proof -
  have "read_loop (print_columns (r_columns s) @ print_where (r_where s) @
      print_order (r_order_column s) (r_order_desc s) @ print_limit (r_limit s))
      \<lparr>r_table = r_table s, r_columns = None, r_where = None, r_order_column = None,
       r_order_desc = False, r_limit = None\<rparr> = Inr s"
    using assms
    by (cases s) (auto simp: read_loop_columns read_loop_where read_loop_order read_loop_limit wf_read_def
        split: option.splits)
  moreover have "ident (raw (r_table s)) = Inr (r_table s)"
    using assms by (simp add: ident_print wf_read_def)
  ultimately show ?thesis
    by (simp add: parse_tokens_def parse_read_def lower_def lower_char_def char_class_defs ord_def)
qed

text \<open>The bindings of \<open>insert\<close>: joining the tokens and splitting at the commas again.\<close>

definition binding_text :: "string \<times> rhs_value \<Rightarrow> string" where
  "binding_text b = fst b @ '': '' @ print_rhs (snd b)"

lemma word_token: "word w \<Longrightarrow> is_token w"
  by (simp add: word_def is_token_def quiet_def no_space_def)

lemma rhs_token: "printable_rhs r \<Longrightarrow> is_token (print_rhs r)"
  using rhs_safe by (simp add: safe_tok_def)

definition printable_binding :: "string \<times> rhs_value \<Rightarrow> bool" where
  "printable_binding b \<longleftrightarrow>
     word (fst b) \<and> printable_rhs (snd b) \<and> CHR '','' \<notin> set (print_rhs (snd b)) \<and>
     CHR '','' \<notin> set (fst b) \<and> CHR '':'' \<notin> set (fst b)"

lemma join_bindings:
  "join '' '' (print_bindings (b # bs)) = join '', '' (map binding_text (b # bs))"
proof (induction "b # bs" arbitrary: b bs rule: print_bindings.induct)
  case (2 f r)
  then show ?case by (simp add: binding_text_def)
next
  case (3 f r b bs)
  have "print_bindings (b # bs) \<noteq> []"
    by (cases b; cases bs) auto
  then show ?case
    using "3" by (simp add: binding_text_def join_Cons)
qed

lemma binding_text_strip:
  assumes "printable_binding b"
  shows "py_strip (binding_text b) = binding_text b" "py_strip (CHR '' '' # binding_text b) = binding_text b"
    "binding_text b \<noteq> []" "CHR '','' \<notin> set (binding_text b)"
proof -
  have f: "is_token (fst b)" and r: "is_token (print_rhs (snd b))"
    using assms by (auto simp: printable_binding_def word_token rhs_token)
  then show s: "py_strip (binding_text b) = binding_text b"
    by (intro py_strip_id) (auto simp: binding_text_def is_token_def list_all_iff)
  have "dropWhile is_space (CHR '' '' # binding_text b) = dropWhile is_space (binding_text b)"
    by simp
  with s show "py_strip (CHR '' '' # binding_text b) = binding_text b"
    by (simp add: py_strip_def)
  show "binding_text b \<noteq> []" "CHR '','' \<notin> set (binding_text b)"
    using assms by (auto simp: binding_text_def printable_binding_def)
qed

lemma binding_print:
  assumes "printable_binding b"
  shows "binding (binding_text b) = Inr b"
proof -
  obtain f r where b: "b = (f, r)" by (cases b)
  have f: "is_token f" "CHR '':'' \<notin> set f" and r: "is_token (print_rhs r)" "printable_rhs r"
    using assms by (auto simp: printable_binding_def b word_token rhs_token)
  have "split_first (CHR '':'') (f @ CHR '':'' # CHR '' '' # print_rhs r) = (f, CHR '' '' # print_rhs r)"
    using f(2) by (rule split_first_eq)
  moreover have "py_strip (CHR '' '' # print_rhs r) = print_rhs r"
    using py_strip_token [OF r(1)] by (simp add: py_strip_def)
  ultimately show ?thesis
    using f r by (simp add: binding_def b binding_text_def py_strip_token rhs_print)
qed

lemma split_bindings:
  "list_all printable_binding bs \<Longrightarrow> bs \<noteq> [] \<Longrightarrow>
   split_on (CHR '','') (join '', '' (map binding_text bs)) =
   binding_text (hd bs) # map (\<lambda>b. CHR '' '' # binding_text b) (tl bs)"
proof (induction bs)
  case (Cons b bs)
  then have b: "CHR '','' \<notin> set (binding_text b)"
    by (simp add: binding_text_strip)
  show ?case
  proof (cases bs)
    case Nil
    with b show ?thesis by (simp add: split_on_none)
  next
    case (Cons b' bs')
    with Cons.IH Cons.prems b show ?thesis
      by (simp add: split_on_step)
  qed
qed simp

lemma parse_bindings_print:
  assumes "list_all printable_binding bs"
  shows "parse_bindings (join '' '' (print_bindings bs)) = Inr bs"
proof (cases bs)
  case Nil
  then show ?thesis by (simp add: parse_bindings_def py_strip_def)
next
  case (Cons b bs')
  have strip: "map py_strip (split_on (CHR '','') (join '', '' (map binding_text bs))) = map binding_text bs"
    using assms Cons split_bindings [OF assms] by (auto simp: binding_text_strip list_all_iff)
  have filt: "filter (\<lambda>p. p \<noteq> []) (map binding_text bs) = map binding_text bs"
    using assms by (auto simp: list_all_iff binding_text_strip intro!: filter_True)
  have "emap (binding \<circ> binding_text) bs = Inr (map id bs)"
    using assms by (intro emap_total) (simp add: list_all_iff binding_print)
  moreover have "join '' '' (print_bindings bs) = join '', '' (map binding_text bs)"
    unfolding Cons by (rule join_bindings)
  ultimately show ?thesis
    by (simp only: parse_bindings_def strip filt emap_map list.map_id id_apply)
qed

lemma parse_insert_print:
  assumes "printable (InsertStmt s)"
  shows "parse_tokens (print_tokens (InsertStmt s)) = Inr (InsertStmt s)"
proof -
  have "list_all printable_binding (i_bindings s)"
    using assms by (auto simp: printable_binding_def wf_insert_def list_all_iff)
  then have "parse_bindings (join '' '' (print_bindings (i_bindings s))) = Inr (i_bindings s)"
    by (rule parse_bindings_print)
  moreover have "ident (raw (i_table s)) = Inr (i_table s)"
    using assms by (simp add: ident_print wf_insert_def)
  ultimately show ?thesis
    by (simp add: parse_tokens_def parse_insert_def lower_def lower_char_def char_class_defs ord_def)
qed

lemma set_loop_print:
  "list_all (\<lambda>(f, r). word f \<and> f \<notin> {''where'', ''returning''} \<and> printable_rhs r) bs \<Longrightarrow>
   ts = [] \<or> hd ts \<in> {''where'', ''returning''} \<Longrightarrow>
   set_loop (concat (map (\<lambda>(f, r). print_eq f r) bs) @ ts) acc = Inr (acc @ bs, ts)"
proof (induction bs arbitrary: acc)
  case Nil
  then show ?case by (cases ts) auto
qed (auto simp: print_eq_def rhs_print)

lemma update_loop_print:
  assumes "wf_opt printable_predicate w" "wf_opt (list_all column) r"
  shows "update_loop (print_where w @ print_returning r) (None, None) = Inr (w, r)"
  using assms
  by (cases w; cases r) (simp_all add: print_where_def print_returning_def rstrip_commas
      predicate_print predicate_print [of _ "[]", simplified])

lemma parse_update_print:
  assumes "printable (UpdateStmt s)"
  shows "parse_tokens (print_tokens (UpdateStmt s)) = Inr (UpdateStmt s)"
proof -
  let ?rest = "print_where (u_where s) @ print_returning (u_returning s)"
  let ?sets = "concat (map (\<lambda>(f, r). print_eq f r) (u_bindings s))"
  have hd: "?rest = [] \<or> hd ?rest \<in> {''where'', ''returning''}"
    by (auto simp: print_where_def print_returning_def split: option.splits)
  have "list_all (\<lambda>(f, r). word f \<and> f \<notin> {''where'', ''returning''} \<and> printable_rhs r) (u_bindings s)"
    using assms by (auto simp: wf_update_def list_all_iff)
  from set_loop_print [OF this hd, of "[]"]
  have "set_loop (?sets @ ?rest) [] = Inr (u_bindings s, ?rest)"
    by simp
  moreover have "update_loop ?rest (None, None) = Inr (u_where s, u_returning s)"
    using assms by (simp add: update_loop_print)
  moreover have "ident (raw (u_table s)) = Inr (u_table s)" and "u_bindings s \<noteq> []"
    using assms by (simp_all add: ident_print wf_update_def)
  moreover have "2 \<le> length (?sets @ ?rest)"
    using \<open>u_bindings s \<noteq> []\<close> by (cases "u_bindings s") (auto simp: print_eq_def)
  ultimately show ?thesis
    by (simp add: parse_tokens_def parse_update_def lower_def lower_char_def char_class_defs ord_def)
qed

lemma parse_delete_print:
  assumes "printable (DeleteStmt s)"
  shows "parse_tokens (print_tokens (DeleteStmt s)) = Inr (DeleteStmt s)"
proof -
  have "delete_where (print_where (d_where s)) = Inr (d_where s)"
    using assms predicate_print [of _ "[]"]
    by (cases "d_where s") (simp_all add: delete_where_def print_where_def)
  moreover have "ident (raw (d_table s)) = Inr (d_table s)"
    using assms by (simp add: ident_print wf_delete_def)
  ultimately show ?thesis
    by (simp add: parse_tokens_def parse_delete_def lower_def lower_char_def char_class_defs ord_def)
qed

lemmas parse_tokens_print = parse_read_print parse_insert_print parse_update_print parse_delete_print

end
