(* ===== verification/Liorm_Catalog.thy ===== *)
theory Liorm_Catalog
  imports Py_Str
begin

text \<open>
  \<open>liorm/catalog.py\<close>: the allowlist of tables and columns, and the resolution of the
  identifiers of a liq program against it. Resolution is the only way an identifier gets into
  SQL text; the locale \<open>name_resolver\<close> is the contract the compiler relies on.
\<close>

section \<open>The allowlist\<close>

type_synonym allowlist = "(string, string set option) dict"

definition REGISTRY :: allowlist where
  "REGISTRY = [
     (''public.publishers'', Some {''id'', ''name'', ''public_key'', ''created_at'', ''revoked_at''}),
     (''public.packages'', Some {''id'', ''name'', ''description'', ''repository_url'', ''created_at''}),
     (''public.package_versions'', Some {''id'', ''package_id'', ''version'', ''tree_digest'',
        ''tarball_sha256'', ''proof_digest'', ''coverage_pct'', ''publisher_id'', ''published_at'',
        ''yanked''}),
     (''public.attestations'', Some {''id'', ''package_version_id'', ''kind'', ''digest'',
        ''signature'', ''created_at''}),
     (''public.yanks'', Some {''id'', ''package_version_id'', ''reason'', ''yanked_by'', ''yanked_at''}),
     (''public.blocklist'', Some {''id'', ''package_name'', ''tree_digest'', ''reason'', ''created_at''}),
     (''public.schema_migrations'', Some {''version'', ''checksum'', ''applied_at''})]"

definition CONTROL_PLANE :: allowlist where
  "CONTROL_PLANE = [
     (''public.agent_runs'', Some {''id'', ''run_id'', ''agent_id'', ''publisher_id'', ''created_at'',
        ''started_at'', ''status'', ''briefing_hash'', ''completed_at'', ''output''}),
     (''public.agent_run_events'', Some {''run_id'', ''seq'', ''event_type'', ''payload''}),
     (''public.control_plane_state'', Some {''id'', ''payload'', ''updated_at''}),
     (''public.control_plane_reports'', Some {''id'', ''briefing_hash'', ''generated_at'',
        ''is_latest'', ''payload''}),
     (''public.interventions_snapshots'', Some {''id'', ''briefing_hash'', ''generated_at'', ''items''}),
     (''public.briefing_snapshots'', Some {''briefing_hash'', ''generated_at'', ''payload''}),
     (''public.heap_plan_snapshots'', Some {''briefing_hash'', ''generated_at'', ''payload''}),
     (''public.queued_agent_tasks'', Some {''briefing_hash'', ''fingerprint'', ''agent_id'',
        ''reason'', ''payload''}),
     (''public.repo_workflow_rollouts'', Some {''run_id'', ''repo'', ''pr_url'', ''install_ok'',
        ''created_at''})]"

text \<open>\<open>{**_REGISTRY, **_CONTROL_PLANE}\<close>: the second dictionary updates the first.\<close>

definition CATALOG_ALLOWLIST :: allowlist where
  "CATALOG_ALLOWLIST = foldl (\<lambda>d (k, v). AList.update k v d) REGISTRY CONTROL_PLANE"

section \<open>Resolution\<close>

definition split_ident :: "string \<Rightarrow> (string \<times> string) result" where
  "split_ident raw =
     (case split_on (CHR ''.'') raw of
        [t] \<Rightarrow> Inr (''public'', t)
      | [s, t] \<Rightarrow> Inr (s, t)
      | _ \<Rightarrow> Inl (CatalogError raw))"

definition table_key :: "string \<Rightarrow> string \<Rightarrow> string" where
  "table_key schema name = schema @ ''.'' @ name"

definition resolve_table :: "string \<Rightarrow> (string \<times> string) result" where
  "resolve_table raw =
     ebind (split_ident raw) (\<lambda>(schema, name).
       let key = table_key schema name in
       if key \<notin> set (dict_keys CATALOG_ALLOWLIST) then Inl (CatalogError key)
       else Inr (schema, name))"

text \<open>The lookup after \<open>resolve_table\<close> is Python's \<open>d[key]\<close>, which would raise on a missing key.\<close>

definition resolve_column :: "string \<Rightarrow> string \<Rightarrow> (string \<times> string \<times> string) result" where
  "resolve_column table_raw column =
     ebind (resolve_table table_raw) (\<lambda>(schema, name).
       let key = table_key schema name in
       (case map_of CATALOG_ALLOWLIST key of
          None \<Rightarrow> Inl (KeyError key)
        | Some None \<Rightarrow> Inr (schema, name, column)
        | Some (Some allowed) \<Rightarrow>
            if column \<notin> allowed then Inl (CatalogError (table_key key column))
            else Inr (schema, name, column)))"

section \<open>The contract of resolution\<close>

text \<open>An identifier that may stand in SQL text: letters in lower case, digits, underscores.\<close>

definition sql_name_char :: "char \<Rightarrow> bool" where
  "sql_name_char c \<longleftrightarrow> is_lower_ascii c \<or> is_decimal c \<or> ord c = 95"

definition sql_name :: "string \<Rightarrow> bool" where
  "sql_name w \<longleftrightarrow> w \<noteq> [] \<and> list_all sql_name_char w"

text \<open>
  What the compiler assumes of a resolver: a resolved table or column is made of identifiers
  that may stand in SQL text; a resolved column belongs to the resolved table and is the
  column asked for; a resolved table resolves its columns against itself.
\<close>

locale name_resolver =
  fixes tab :: "string \<Rightarrow> (string \<times> string) result"
    and col :: "string \<Rightarrow> string \<Rightarrow> (string \<times> string \<times> string) result"
    and ok :: "string \<Rightarrow> bool"
  assumes tab_ok: "tab raw = Inr (s, t) \<Longrightarrow> ok s \<and> ok t"
    and col_tab: "col raw c = Inr (s, t, k) \<Longrightarrow> tab raw = Inr (s, t)"
    and col_name: "col raw c = Inr (s, t, k) \<Longrightarrow> k = c \<and> ok c"
begin

lemma col_ok: "col raw c = Inr (s, t, k) \<Longrightarrow> ok s \<and> ok t \<and> ok k"
  using col_tab col_name tab_ok by blast

lemma cols_of_table:
  "emap (col raw) cs = Inr ks \<Longrightarrow> tab raw = Inr (s, t) \<Longrightarrow> ks = map (\<lambda>c. (s, t, c)) cs \<and> list_all ok cs"
proof (induction cs arbitrary: ks)
  case (Cons c cs)
  then obtain a b d ks' where c: "col raw c = Inr (a, b, d)" and ks': "emap (col raw) cs = Inr ks'"
    and ks: "ks = (a, b, d) # ks'"
    by (auto simp: ebind_eq_Inr)
  from c Cons.prems(2) have "a = s \<and> b = t \<and> d = c \<and> ok c"
    using col_tab [OF c] col_name [OF c] by auto
  with Cons.IH [OF ks' Cons.prems(2)] ks show ?case by auto
qed simp

lemma col_of_table: "col raw c = Inr k \<Longrightarrow> tab raw = Inr (s, t) \<Longrightarrow> k = (s, t, c) \<and> ok c"
  using col_tab col_name by (cases k) force

end

section \<open>The catalog keeps the contract\<close>

lemma CATALOG_ALLOWLIST_eq: "CATALOG_ALLOWLIST = REGISTRY @ CONTROL_PLANE"
  by (simp add: CATALOG_ALLOWLIST_def REGISTRY_def CONTROL_PLANE_def)

text \<open>Every entry restricts its columns, all names may stand in SQL, all tables are public.\<close>

definition entry_ok :: "string \<times> string set option \<Rightarrow> bool" where
  "entry_ok e \<longleftrightarrow>
     take 7 (fst e) = ''public.'' \<and> sql_name (drop 7 (fst e)) \<and>
     (case snd e of None \<Rightarrow> False | Some cs \<Rightarrow> (\<forall>c\<in>cs. sql_name c))"

lemma catalog_entries_ok: "list_all entry_ok CATALOG_ALLOWLIST"
  unfolding CATALOG_ALLOWLIST_eq REGISTRY_def CONTROL_PLANE_def
  by (simp add: entry_ok_def sql_name_def sql_name_char_def char_class_defs ord_def)

lemma catalog_is_dict: "is_dict CATALOG_ALLOWLIST"
  unfolding CATALOG_ALLOWLIST_eq REGISTRY_def CONTROL_PLANE_def
  by (simp add: is_dict_def dict_keys_def)

lemma catalog_lookup:
  assumes "key \<in> set (dict_keys CATALOG_ALLOWLIST)"
  obtains cs where "map_of CATALOG_ALLOWLIST key = Some (Some cs)" "entry_ok (key, Some cs)"
proof -
  from assms obtain v where v: "map_of CATALOG_ALLOWLIST key = Some v"
    by (auto simp: map_of_dict_key)
  then have "entry_ok (key, v)"
    using catalog_entries_ok by (auto simp: list_all_iff dest: map_of_SomeD)
  with v that show ?thesis
    by (cases v) (auto simp: entry_ok_def)
qed

lemma split_ident_no_dot:
  "split_ident raw = Inr (s, t) \<Longrightarrow> CHR ''.'' \<notin> set s \<and> CHR ''.'' \<notin> set t"
proof -
  assume a: "split_ident raw = Inr (s, t)"
  have "CHR ''.'' \<notin> set w" if "w \<in> set (split_on (CHR ''.'') raw)" for w
    using that by (rule split_on_no_sep)
  then show ?thesis
    using a by (auto simp: split_ident_def split: list.splits)
qed

lemma table_key_public:
  assumes "take 7 (table_key s t) = ''public.''" "CHR ''.'' \<notin> set s"
  shows "s = ''public'' \<and> drop 7 (table_key s t) = t"
proof -
  have "table_key s t = ''public.'' @ drop 7 (table_key s t)"
    using assms(1) append_take_drop_id [of 7 "table_key s t"] by simp
  then have eq: "s @ CHR ''.'' # t = ''public'' @ CHR ''.'' # drop 7 (table_key s t)"
    by (simp add: table_key_def)
  have s: "s = takeWhile (\<lambda>c. c \<noteq> CHR ''.'') (s @ CHR ''.'' # t)"
    by (rule takeWhile_stop [symmetric]) (use assms(2) in auto)
  have "s = ''public''"
    by (subst s, subst eq) simp
  with eq show ?thesis by simp
qed

lemma resolve_table_Inr:
  assumes "resolve_table raw = Inr (s, t)"
  shows "s = ''public''" "sql_name t" "table_key s t \<in> set (dict_keys CATALOG_ALLOWLIST)"
proof -
  from assms have id: "split_ident raw = Inr (s, t)"
    and key: "table_key s t \<in> set (dict_keys CATALOG_ALLOWLIST)"
    by (auto simp: resolve_table_def Let_def ebind_eq_Inr split: if_splits)
  from key obtain cs where "entry_ok (table_key s t, Some cs)"
    by (rule catalog_lookup)
  then have "take 7 (table_key s t) = ''public.''" and "sql_name (drop 7 (table_key s t))"
    by (auto simp: entry_ok_def)
  with split_ident_no_dot [OF id] show "s = ''public''" "sql_name t"
    using table_key_public [of s t] by auto
  show "table_key s t \<in> set (dict_keys CATALOG_ALLOWLIST)" by (rule key)
qed

lemma resolve_column_Inr:
  "resolve_column raw c = Inr (s, t, k) \<longleftrightarrow>
     resolve_table raw = Inr (s, t) \<and> k = c \<and>
     (\<exists>cs. map_of CATALOG_ALLOWLIST (table_key s t) = Some (Some cs) \<and> c \<in> cs)"
proof
  assume a: "resolve_column raw c = Inr (s, t, k)"
  then have t: "resolve_table raw = Inr (s, t)" and k: "k = c"
    by (auto simp: resolve_column_def Let_def ebind_eq_Inr split: option.splits if_splits)
  obtain cs where cs: "map_of CATALOG_ALLOWLIST (table_key s t) = Some (Some cs)"
    using catalog_lookup [OF resolve_table_Inr(3) [OF t]] by blast
  with a t have "c \<in> cs"
    by (auto simp: resolve_column_def Let_def split: if_splits)
  with t k cs show "resolve_table raw = Inr (s, t) \<and> k = c \<and>
     (\<exists>cs. map_of CATALOG_ALLOWLIST (table_key s t) = Some (Some cs) \<and> c \<in> cs)" by blast
qed (auto simp: resolve_column_def)

interpretation cat: name_resolver resolve_table resolve_column sql_name
proof
  fix raw s t
  assume "resolve_table raw = Inr (s, t)"
  then show "sql_name s \<and> sql_name t"
    using resolve_table_Inr [of raw s t]
    by (auto simp: sql_name_def sql_name_char_def char_class_defs ord_def)
next
  fix raw c s t k
  assume a: "resolve_column raw c = Inr (s, t, k)"
  then show "resolve_table raw = Inr (s, t)"
    by (simp add: resolve_column_Inr)
  from a obtain cs where cs: "map_of CATALOG_ALLOWLIST (table_key s t) = Some (Some cs)"
    and c: "c \<in> cs" "k = c"
    by (auto simp: resolve_column_Inr)
  from cs have "entry_ok (table_key s t, Some cs)"
    using catalog_entries_ok by (auto simp: list_all_iff dest: map_of_SomeD)
  with c show "k = c \<and> sql_name c"
    by (auto simp: entry_ok_def)
qed

text \<open>Resolution only fails with \<open>CatalogError\<close>: the lookup of a resolved key never misses.\<close>

lemma resolve_table_Inl: "resolve_table raw = Inl e \<Longrightarrow> \<exists>m. e = CatalogError m"
  by (auto simp: resolve_table_def split_ident_def Let_def ebind_eq_Inl split: list.splits if_splits)

lemma resolve_column_Inl: "resolve_column raw c = Inl e \<Longrightarrow> \<exists>m. e = CatalogError m"
proof (cases "resolve_table raw")
  case (Inr st)
  assume a: "resolve_column raw c = Inl e"
  obtain s t where st: "st = (s, t)" by (cases st)
  obtain cs where "map_of CATALOG_ALLOWLIST (table_key s t) = Some (Some cs)"
    using catalog_lookup [OF resolve_table_Inr(3)] Inr st by blast
  with a Inr st show ?thesis
    by (auto simp: resolve_column_def Let_def split: if_splits)
qed (auto simp: resolve_column_def dest: resolve_table_Inl)

end
