(* ===== verification/Py_Json.thy ===== *)
theory Py_Json
  imports Py_Str "HOL-Library.Char_ord" "HOL-Library.List_Lexorder"
begin

text \<open>
  Python's \<open>json.dumps\<close> on the values the packages serialise. The text is hashed into plan ids
  (\<open>liq/compiler.py\<close>) and audit entries (\<open>liorm/audit.py\<close>) and sent to the native engine
  (\<open>liorm/embed_engine.py\<close>). The main result is that it is a prefix code: the text of a value
  determines the value, so that two different values never hash the same text.
\<close>

section \<open>Values\<close>

text \<open>A float is represented by its \<open>repr\<close>, which is also its JSON text. An integer is one that \<open>str\<close>
  accepts (\<open>small_int\<close>): on a larger one \<open>dumps\<close> raises, which is not modelled.\<close>

datatype json =
    JNull
  | JBool bool
  | JInt int
  | JFloat string
  | JStr string
  | JList "json list"
  | JObj "(string \<times> json) list"

section \<open>Text\<close>

definition hex_digit :: "nat \<Rightarrow> char" where
  "hex_digit d = (if d < 10 then digit_char d else char_of (87 + d))"

text \<open>\<open>ensure_ascii\<close>: everything outside the printable ASCII range is escaped.\<close>

definition esc_char :: "char \<Rightarrow> string" where
  "esc_char c =
     (if ord c = 34 then [CHR 0x5C, CHR 0x22]
      else if ord c = 92 then [CHR 0x5C, CHR 0x5C]
      else if ord c = 10 then [CHR 0x5C, CHR ''n'']
      else if ord c = 13 then [CHR 0x5C, CHR ''r'']
      else if ord c = 9 then [CHR 0x5C, CHR ''t'']
      else if ord c = 12 then [CHR 0x5C, CHR ''f'']
      else if ord c = 8 then [CHR 0x5C, CHR ''b'']
      else if 32 \<le> ord c \<and> ord c \<le> 126 then [c]
      else [CHR 0x5C, CHR ''u'', CHR ''0'', CHR ''0'', hex_digit (ord c div 16), hex_digit (ord c mod 16)])"

definition dumps_str :: "string \<Rightarrow> string" where
  "dumps_str s = CHR 0x22 # concat (map esc_char s) @ [CHR 0x22]"

text \<open>\<open>json.dumps(v, separators=(isep, ksep))\<close>\<close>

fun dumps :: "string \<Rightarrow> string \<Rightarrow> json \<Rightarrow> string" where
  "dumps isep ksep JNull = ''null''"
| "dumps isep ksep (JBool b) = (if b then ''true'' else ''false'')"
| "dumps isep ksep (JInt i) = show_int i"
| "dumps isep ksep (JFloat r) = r"
| "dumps isep ksep (JStr s) = dumps_str s"
| "dumps isep ksep (JList vs) = ''['' @ join isep (map (dumps isep ksep) vs) @ '']''"
| "dumps isep ksep (JObj kvs) =
     ''{'' @ join isep (map (\<lambda>(k, v). dumps_str k @ ksep @ dumps isep ksep v) kvs) @ ''}''"

text \<open>\<open>sort_keys=True\<close>: the members of every object in the order of their keys.\<close>

fun sort_keys :: "json \<Rightarrow> json" where
  "sort_keys (JList vs) = JList (map sort_keys vs)"
| "sort_keys (JObj kvs) = JObj (sort_key fst (map (\<lambda>(k, v). (k, sort_keys v)) kvs))"
| "sort_keys v = v"

section \<open>Prefix codes\<close>

text \<open>
  An encoder is a prefix code up to the texts that may follow (\<open>stop\<close>): a text that starts
  with the encoding of a value starts with the encoding of no other value.
\<close>

locale prefix_code =
  fixes enc :: "'a \<Rightarrow> string" and ok :: "'a \<Rightarrow> bool" and stop :: "string \<Rightarrow> bool"
  assumes decode: "ok x \<Longrightarrow> ok y \<Longrightarrow> stop s \<Longrightarrow> stop t \<Longrightarrow> enc x @ s = enc y @ t \<Longrightarrow> x = y \<and> s = t"
    and stop_Nil: "stop []"
begin

lemma inj: "ok x \<Longrightarrow> ok y \<Longrightarrow> enc x = enc y \<longleftrightarrow> x = y"
  using decode [of x y "[]" "[]"] stop_Nil by auto

lemma decode_iff: "ok x \<Longrightarrow> ok y \<Longrightarrow> stop s \<Longrightarrow> stop t \<Longrightarrow> enc x @ s = enc y @ t \<longleftrightarrow> x = y \<and> s = t"
  using decode by blast

end

text \<open>A comma-separated list of encodings, closed by a character that starts no encoding.\<close>

lemma join_decode:
  assumes dec: "\<And>x y s t. x \<in> set xs \<Longrightarrow> ok y \<Longrightarrow> stop s \<Longrightarrow> stop t \<Longrightarrow> enc x @ s = enc y @ t \<Longrightarrow> x = y \<and> s = t"
    and ok: "list_all ok xs" "list_all ok ys"
    and ne: "\<And>x. ok x \<Longrightarrow> enc x \<noteq> [] \<and> hd (enc x) \<noteq> cl"
    and sep: "sep \<noteq> []" "hd sep \<noteq> cl" "\<And>s. stop (sep @ s)" "\<And>s. stop (cl # s)"
    and eq: "join sep (map enc xs) @ cl # s = join sep (map enc ys) @ cl # t"
  shows "xs = ys \<and> s = t"
proof -
  have start: "hd (join sep (map enc ws) @ cl # u) \<noteq> cl" if "ws \<noteq> []" "list_all ok ws" for ws u
    using that ne by (cases ws; cases "tl ws") (simp_all add: join_Cons)
  have hd_sep: "hd (sep @ u) \<noteq> cl" for u
    using sep(1,2) by (cases sep) auto
  show ?thesis
    using dec ok eq
  proof (induction xs arbitrary: ys)
    case Nil
    then have "ys = []"
      using start [of ys t] by (metis append_Nil join.simps(1) list.sel(1) list.simps(8))
    with Nil show ?case by simp
  next
    case (Cons x xs)
    have "ys \<noteq> []"
      using start [of "x # xs" s] Cons.prems(2,4) by auto
    then obtain y ys' where ys: "ys = y # ys'" by (cases ys) auto
    define r where "r = (if xs = [] then cl # s else sep @ join sep (map enc xs) @ cl # s)"
    define r' where "r' = (if ys' = [] then cl # t else sep @ join sep (map enc ys') @ cl # t)"
    have "enc x @ r = enc y @ r'"
      using Cons.prems(4) by (auto simp: ys r_def r'_def join_Cons)
    moreover have "stop r" "stop r'"
      using sep by (auto simp: r_def r'_def)
    ultimately have xy: "x = y" and rr: "r = r'"
      using Cons.prems(1) [of x y r r'] Cons.prems(3) ys by auto
    have same: "xs = [] \<longleftrightarrow> ys' = []"
      using rr hd_sep [of "join sep (map enc xs) @ cl # s"] hd_sep [of "join sep (map enc ys') @ cl # t"]
      by (auto simp: r_def r'_def dest: arg_cong [of _ _ hd] split: if_splits)
    show ?case
    proof (cases "xs = []")
      case True
      with rr same xy ys show ?thesis by (simp add: r_def r'_def)
    next
      case False
      with rr same have "join sep (map enc xs) @ cl # s = join sep (map enc ys') @ cl # t"
        by (simp add: r_def r'_def)
      then have "xs = ys' \<and> s = t"
        using Cons.prems(1,2,3) ys by (intro Cons.IH) auto
      with xy ys show ?thesis by simp
    qed
  qed
qed

section \<open>Strings\<close>

lemma ord_char_of: "n < 256 \<Longrightarrow> ord (char_of n) = n"
  by (simp add: ord_def)

lemma hex_digit_inject:
  assumes "d < 16" "e < 16" "hex_digit d = hex_digit e"
  shows "d = e"
proof -
  have "ord (hex_digit x) = (if x < 10 then 48 + x else 87 + x)" if "x < 16" for x
    using that by (simp add: hex_digit_def ord_digit_char ord_char_of)
  from this [OF assms(1)] this [OF assms(2)]
  have "(if d < 10 then 48 + d else 87 + d) = (if e < 10 then 48 + e else 87 + e)"
    unfolding assms(3) by simp
  then show ?thesis by (simp split: if_splits)
qed

lemma ord_backslash [simp]: "ord (CHR 0x5C) = 92" and ord_quote [simp]: "ord (CHR 0x22) = 34"
  by (simp_all add: ord_def)

text \<open>The three shapes of an escaped character; the letter of a short escape names it.\<close>

definition short_escape :: "char \<Rightarrow> nat" where
  "short_escape e =
     (if e = CHR ''n'' then 10 else if e = CHR ''r'' then 13 else if e = CHR ''t'' then 9
      else if e = CHR ''f'' then 12 else if e = CHR ''b'' then 8 else ord e)"

lemma esc_char_cases:
  obtains (plain) "esc_char c = [c]" "c \<noteq> CHR 0x5C" "c \<noteq> CHR 0x22"
  | (short) e where "esc_char c = [CHR 0x5C, e]" "e \<noteq> CHR ''u''" "ord c = short_escape e"
  | (hex) "esc_char c = [CHR 0x5C, CHR ''u'', CHR ''0'', CHR ''0'', hex_digit (ord c div 16),
      hex_digit (ord c mod 16)]"
proof -
  consider "ord c \<in> {34, 92, 10, 13, 9, 12, 8}"
    | "ord c \<notin> {34, 92, 10, 13, 9, 12, 8}" "32 \<le> ord c \<and> ord c \<le> 126"
    | "ord c \<notin> {34, 92, 10, 13, 9, 12, 8}" "\<not> (32 \<le> ord c \<and> ord c \<le> 126)"
    by blast
  then show thesis
  proof cases
    case 1
    then obtain e where "esc_char c = [CHR 0x5C, e]" "e \<noteq> CHR ''u''" "ord c = short_escape e"
      by (elim insertE emptyE) (simp_all add: esc_char_def short_escape_def)
    then show ?thesis by (rule short)
  next
    case 2
    then show ?thesis by (intro plain) (auto simp: esc_char_def)
  next
    case 3
    then show ?thesis by (intro hex) (simp add: esc_char_def)
  qed
qed

lemma hex_digits_inject:
  assumes "hex_digit (ord c div 16) = hex_digit (ord d div 16)"
    "hex_digit (ord c mod 16) = hex_digit (ord d mod 16)"
  shows "c = d"
proof -
  have "ord c div 16 < 16" "ord d div 16 < 16"
    using ord_less [of c] ord_less [of d] by linarith+
  with assms have "ord c div 16 = ord d div 16" "ord c mod 16 = ord d mod 16"
    by (auto intro!: hex_digit_inject)
  then have "ord c = ord d" by (metis div_mult_mod_eq)
  then show ?thesis by simp
qed

lemma esc_char_decode:
  assumes eq: "esc_char c @ s = esc_char d @ t"
  shows "c = d \<and> s = t"
proof (cases c rule: esc_char_cases)
  case plain
  with eq show ?thesis by (cases d rule: esc_char_cases) auto
next
  case (short e)
  with eq show ?thesis
  proof (cases d rule: esc_char_cases)
    case short2: (short f)
    with short eq have "e = f" "s = t" by simp_all
    with short short2 have "ord c = ord d" by simp
    with \<open>s = t\<close> show ?thesis by simp
  qed auto
next
  case hex
  with eq show ?thesis by (cases d rule: esc_char_cases) (auto intro: hex_digits_inject)
qed

lemma esc_char_hd: "hd (esc_char c @ t) \<noteq> CHR 0x22" and esc_char_ne: "esc_char c \<noteq> []"
  by (auto simp: esc_char_def split: if_splits)

lemma esc_string_decode:
  "concat (map esc_char v) @ CHR 0x22 # s = concat (map esc_char w) @ CHR 0x22 # t \<Longrightarrow> v = w \<and> s = t"
proof (induction v arbitrary: w)
  case Nil
  then show ?case
    using esc_char_hd by (cases w) (auto, metis append_assoc list.sel(1))
next
  case (Cons c v)
  from Cons.prems have "w \<noteq> []"
    using esc_char_hd [of c "concat (map esc_char v) @ CHR 0x22 # s"] by auto
  then obtain d w' where w: "w = d # w'" by (cases w) auto
  from Cons.prems w have "c = d \<and> concat (map esc_char v) @ CHR 0x22 # s = concat (map esc_char w') @ CHR 0x22 # t"
    by (intro esc_char_decode) simp
  with Cons.IH [of w'] w show ?case by auto
qed

interpretation str_code: prefix_code dumps_str "\<lambda>_. True" "\<lambda>_. True"
  by unfold_locales (auto simp: dumps_str_def dest: esc_string_decode)

section \<open>Numbers\<close>

text \<open>What may follow a value inside a JSON text: nothing, a separator or a closing bracket.\<close>

definition json_stop :: "string \<Rightarrow> bool" where
  "json_stop s \<longleftrightarrow> s = [] \<or> hd s \<in> {CHR '','', CHR ''}'', CHR '']''}"

definition num_char :: "char \<Rightarrow> bool" where
  "num_char c \<longleftrightarrow> is_decimal c \<or> c = CHR ''-''"

text \<open>The characters of \<open>repr\<close> of a float, and the mark that makes it no integer: a point, an
  exponent, or the letters of \<open>NaN\<close> and \<open>Infinity\<close>.\<close>

definition float_char :: "char \<Rightarrow> bool" where
  "float_char c \<longleftrightarrow> num_char c \<or> is_upper_ascii c \<or> is_lower_ascii c \<or> c = CHR ''.'' \<or> c = CHR ''+''"

definition float_repr :: "string \<Rightarrow> bool" where
  "float_repr r \<longleftrightarrow>
     r \<noteq> [] \<and> list_all float_char r \<and> \<not> list_all num_char r \<and> \<not> is_lower_ascii (hd r)"

lemma num_float_char: "num_char c \<Longrightarrow> float_char c"
  by (simp add: float_char_def)

lemma json_stop_simps [simp]:
  "json_stop []" "json_stop (CHR '']'' # s)" "json_stop (CHR ''}'' # s)" "json_stop (CHR '','' # s)"
  by (simp_all add: json_stop_def)

lemma json_stop_sep: "isep \<noteq> [] \<Longrightarrow> hd isep = CHR '','' \<Longrightarrow> json_stop (isep @ s)"
  by (cases isep) auto

lemma json_stop_float: "json_stop s \<Longrightarrow> s = [] \<or> \<not> float_char (hd s)"
  by (auto simp: json_stop_def float_char_def num_char_def char_class_defs ord_def)

lemma run_decode:
  assumes "list_all P v" "list_all P w" "s = [] \<or> \<not> P (hd s)" "t = [] \<or> \<not> P (hd t)" "v @ s = w @ t"
  shows "v = w \<and> s = t"
proof -
  have "takeWhile P (x @ u) = x" if "list_all P x" "u = [] \<or> \<not> P (hd u)" for x u
    using that by (cases u) (auto simp: list_all_iff takeWhile_append2)
  from this [of v s] this [of w t] assms have "v = w" by metis
  with assms(5) show ?thesis by simp
qed

lemma show_int_num: "list_all num_char (show_int i)" "show_int i \<noteq> []"
  using show_nat_decimal by (auto simp: show_int_def num_char_def list_all_iff)

lemma show_int_inject: "show_int i = show_int j \<longleftrightarrow> i = j"
proof -
  have minus: "CHR ''-'' # w \<noteq> show_nat n" for w n
    using show_nat_decimal [of n] by (auto simp: is_decimal_def ord_def dest: arg_cong [of _ _ "list_all is_decimal"])
  show ?thesis
    using minus minus [symmetric] by (auto simp: show_int_def show_nat_inject split: if_splits)
qed

interpretation int_code: prefix_code show_int "\<lambda>_. True" json_stop
proof
  fix i j s t
  assume "json_stop s" "json_stop t" "show_int i @ s = show_int j @ t"
  then have "show_int i = show_int j \<and> s = t"
    using show_int_num json_stop_float num_float_char
    by (intro run_decode [where P = float_char]) (auto simp: list_all_iff)
  then show "i = j \<and> s = t" by (simp add: show_int_inject)
qed (simp add: json_stop_def)


section \<open>Values\<close>

text \<open>The floats inside a value carry the text of a float.\<close>

fun json_ok :: "json \<Rightarrow> bool" where
  "json_ok (JFloat r) = float_repr r"
| "json_ok (JList vs) = list_all json_ok vs"
| "json_ok (JObj kvs) = list_all (\<lambda>(k, v). json_ok v) kvs"
| "json_ok _ = True"

text \<open>The first character tells the kind of a value.\<close>

definition kind_of_char :: "char \<Rightarrow> nat" where
  "kind_of_char c =
     (if c = CHR ''n'' then 0 else if c = CHR ''t'' then 1 else if c = CHR ''f'' then 2
      else if c = CHR 0x22 then 3 else if c = CHR ''['' then 4 else if c = CHR ''{'' then 5
      else if c \<in> {CHR ''}'', CHR '']''} then 7 else 6)"

fun kind_of :: "json \<Rightarrow> nat" where
  "kind_of JNull = 0"
| "kind_of (JBool b) = (if b then 1 else 2)"
| "kind_of (JStr s) = 3"
| "kind_of (JList vs) = 4"
| "kind_of (JObj kvs) = 5"
| "kind_of _ = 6"

lemma float_head:
  assumes "w \<noteq> []" "list_all float_char w" "\<not> is_lower_ascii (hd w)"
  shows "kind_of_char (hd w) = 6"
proof -
  from assms have "float_char (hd w)" by (cases w) auto
  with assms(3) show ?thesis
    by (auto simp: kind_of_char_def float_char_def num_char_def char_class_defs ord_def)
qed

lemma dumps_head: "json_ok v \<Longrightarrow> dumps isep ksep v \<noteq> [] \<and> kind_of_char (hd (dumps isep ksep v)) = kind_of v"
proof (cases v)
  case (JInt i)
  have "num_char (hd (show_int i))"
    using show_int_num [of i] by (cases "show_int i") auto
  then have "\<not> is_lower_ascii (hd (show_int i))"
    by (auto simp: num_char_def char_class_defs ord_def)
  then show ?thesis
    using JInt show_int_num [of i] num_float_char
    by (auto intro!: float_head simp: list_all_iff)
next
  case (JFloat r)
  then show "json_ok v \<Longrightarrow> ?thesis" by (auto simp: float_repr_def intro!: float_head)
qed (auto simp: kind_of_char_def dumps_str_def)

lemma dumps_same_kind:
  assumes "json_ok v" "json_ok w" "dumps isep ksep v @ s = dumps isep ksep w @ t"
  shows "kind_of v = kind_of w"
proof -
  have "hd (dumps isep ksep v) = hd (dumps isep ksep w)"
    using assms dumps_head [of v isep ksep] dumps_head [of w isep ksep] by (metis hd_append2)
  with assms(1,2) show ?thesis
    using dumps_head by metis
qed

text \<open>Numbers: the whole run of number characters is the number, and a float is no integer.\<close>

lemma number_decode:
  assumes "json_ok v" "json_ok w" "kind_of v = 6" "kind_of w = 6" "json_stop s" "json_stop t"
    "dumps isep ksep v @ s = dumps isep ksep w @ t"
  shows "v = w \<and> s = t"
proof -
  have run: "list_all float_char (dumps isep ksep x)" if "json_ok x" "kind_of x = 6" for x
    using that show_int_num num_float_char by (cases x) (auto simp: float_repr_def list_all_iff split: if_splits)
  have "dumps isep ksep v = dumps isep ksep w \<and> s = t"
    by (rule run_decode [where P = float_char]) (use assms run json_stop_float in auto)
  moreover have "v = w" if "dumps isep ksep v = dumps isep ksep w"
    using assms that show_int_num
    by (cases v; cases w) (auto simp: float_repr_def show_int_inject split: if_splits)
  ultimately show ?thesis by simp
qed

text \<open>Reading back one value, as a property of the value; lists and objects have it if their
  members do.\<close>

definition decodes :: "string \<Rightarrow> string \<Rightarrow> json \<Rightarrow> bool" where
  "decodes isep ksep v \<longleftrightarrow> (\<forall>w s t. json_ok v \<longrightarrow> json_ok w \<longrightarrow> json_stop s \<longrightarrow> json_stop t \<longrightarrow>
     dumps isep ksep v @ s = dumps isep ksep w @ t \<longrightarrow> v = w \<and> s = t)"

lemma decodesI:
  "(\<And>w s t. json_ok v \<Longrightarrow> json_ok w \<Longrightarrow> json_stop s \<Longrightarrow> json_stop t \<Longrightarrow>
     dumps isep ksep v @ s = dumps isep ksep w @ t \<Longrightarrow> v = w \<and> s = t) \<Longrightarrow> decodes isep ksep v"
  unfolding decodes_def by blast

lemma decodesD:
  "decodes isep ksep v \<Longrightarrow> json_ok v \<Longrightarrow> json_ok w \<Longrightarrow> json_stop s \<Longrightarrow> json_stop t \<Longrightarrow>
     dumps isep ksep v @ s = dumps isep ksep w @ t \<Longrightarrow> v = w \<and> s = t"
  unfolding decodes_def by blast

lemma list_decodes:
  assumes sep: "isep \<noteq> []" "hd isep = CHR '',''" and members: "\<And>x. x \<in> set vs \<Longrightarrow> decodes isep ksep x"
  shows "decodes isep ksep (JList vs)"
proof (rule decodesI)
  fix w s t
  assume prems: "json_ok (JList vs)" "json_ok w" "json_stop s" "json_stop t"
    and eq: "dumps isep ksep (JList vs) @ s = dumps isep ksep w @ t"
  have "kind_of w = 4" using dumps_same_kind [OF prems(1,2) eq] by simp
  then obtain ws where w: "w = JList ws" by (cases w) (auto split: if_splits)
  have "vs = ws \<and> s = t"
  proof (rule join_decode [where ok = json_ok and stop = json_stop and enc = "dumps isep ksep"
        and sep = isep and cl = "CHR '']''"])
    show "x = y \<and> s' = t'" if "x \<in> set vs" "json_ok y" "json_stop s'" "json_stop t'"
      "dumps isep ksep x @ s' = dumps isep ksep y @ t'" for x y s' t'
      using prems(1) that by (intro decodesD [OF members]) (simp_all add: list_all_iff)
    show "dumps isep ksep x \<noteq> [] \<and> hd (dumps isep ksep x) \<noteq> CHR '']''" if "json_ok x" for x
      using dumps_head [OF that, of isep ksep] by (cases x) (auto simp: kind_of_char_def split: if_splits)
    show "join isep (map (dumps isep ksep) vs) @ CHR '']'' # s =
      join isep (map (dumps isep ksep) ws) @ CHR '']'' # t"
      using eq w by simp
  qed (use sep prems w in \<open>simp_all add: json_stop_sep\<close>)
  with w show "JList vs = w \<and> s = t" by simp
qed

definition dumps_member :: "string \<Rightarrow> string \<Rightarrow> string \<times> json \<Rightarrow> string" where
  "dumps_member isep ksep = (\<lambda>(k, v). dumps_str k @ ksep @ dumps isep ksep v)"

lemma member_decode:
  assumes dec: "decodes isep ksep (snd x)" "json_ok (snd x)" "json_ok (snd y)" "json_stop s" "json_stop t"
    and eq: "dumps_member isep ksep x @ s = dumps_member isep ksep y @ t"
  shows "x = y \<and> s = t"
proof -
  have "dumps_str (fst x) @ (ksep @ dumps isep ksep (snd x) @ s) =
      dumps_str (fst y) @ (ksep @ dumps isep ksep (snd y) @ t)"
    using eq by (simp add: dumps_member_def split_beta)
  then have "fst x = fst y" "dumps isep ksep (snd x) @ s = dumps isep ksep (snd y) @ t"
    using str_code.decode_iff [where x = "fst x" and y = "fst y"] by auto
  with decodesD [OF dec] show ?thesis by (simp add: prod_eq_iff)
qed

lemma object_decodes:
  assumes sep: "isep \<noteq> []" "hd isep = CHR '',''" and members: "\<And>x. x \<in> set kvs \<Longrightarrow> decodes isep ksep (snd x)"
  shows "decodes isep ksep (JObj kvs)"
proof (rule decodesI)
  fix w s t
  assume prems: "json_ok (JObj kvs)" "json_ok w" "json_stop s" "json_stop t"
    and eq: "dumps isep ksep (JObj kvs) @ s = dumps isep ksep w @ t"
  have "kind_of w = 5" using dumps_same_kind [OF prems(1,2) eq] by simp
  then obtain kws where w: "w = JObj kws" by (cases w) (auto split: if_splits)
  have "kvs = kws \<and> s = t"
  proof (rule join_decode [where ok = "\<lambda>x. json_ok (snd x)" and stop = json_stop and enc = "dumps_member isep ksep"
        and sep = isep and cl = "CHR ''}''"])
    show "x = y \<and> s' = t'" if "x \<in> set kvs" "json_ok (snd y)" "json_stop s'" "json_stop t'"
      "dumps_member isep ksep x @ s' = dumps_member isep ksep y @ t'" for x y s' t'
      using prems(1) that by (intro member_decode [OF members]) (auto simp: list_all_iff)
    show "dumps_member isep ksep x \<noteq> [] \<and> hd (dumps_member isep ksep x) \<noteq> CHR ''}''" if "json_ok (snd x)" for x
      by (cases x) (simp add: dumps_str_def dumps_member_def)
    show "join isep (map (dumps_member isep ksep) kvs) @ CHR ''}'' # s =
      join isep (map (dumps_member isep ksep) kws) @ CHR ''}'' # t"
      using eq w by (simp add: dumps_member_def)
  qed (use sep prems w in \<open>simp_all add: json_stop_sep split_beta list_all_iff\<close>)
  with w show "JObj kvs = w \<and> s = t" by simp
qed

lemma json_kind_cases: "kind_of w = kind_of JNull \<Longrightarrow> w = JNull" "kind_of w = kind_of (JBool b) \<Longrightarrow> w = JBool b"
  by (cases w; simp split: if_splits)+

lemma dumps_decodes:
  assumes sep: "isep \<noteq> []" "hd isep = CHR '',''"
  shows "decodes isep ksep v"
proof (induction v)
  case (JList vs)
  then show ?case by (rule list_decodes [OF sep])
next
  case (JObj kvs)
  show ?case
    by (rule object_decodes [OF sep]) (rule JObj.IH [OF _ snds.intros], simp_all)
next
  case (JStr v)
  show ?case
  proof (rule decodesI)
    fix w s t assume prems: "json_ok (JStr v)" "json_ok w" and eq: "dumps isep ksep (JStr v) @ s = dumps isep ksep w @ t"
    have "kind_of w = 3" using dumps_same_kind [OF prems eq] by simp
    then obtain u where w: "w = JStr u" by (cases w) (auto split: if_splits)
    have "dumps_str v @ s = dumps_str u @ t" using eq w by (simp only: dumps.simps)
    then have "v = u \<and> s = t" by (intro str_code.decode) simp_all
    with w show "JStr v = w \<and> s = t" by simp
  qed
next
  case (JInt i)
  show ?case
    using dumps_same_kind [of "JInt i"] by (intro decodesI number_decode) auto
next
  case (JFloat r)
  show ?case
    using dumps_same_kind [of "JFloat r"] by (intro decodesI number_decode) auto
next
  case (JBool b)
  show ?case
    using dumps_same_kind [of "JBool b"]
    by (intro decodesI) (metis json_kind_cases(2) same_append_eq)
next
  case JNull
  show ?case
    using dumps_same_kind [of JNull] by (intro decodesI) (metis json_kind_cases(1) same_append_eq)
qed

lemma dumps_decode:
  "isep \<noteq> [] \<Longrightarrow> hd isep = CHR '','' \<Longrightarrow> json_ok v \<Longrightarrow> json_ok w \<Longrightarrow> json_stop s \<Longrightarrow> json_stop t \<Longrightarrow>
     dumps isep ksep v @ s = dumps isep ksep w @ t \<Longrightarrow> v = w \<and> s = t"
  using dumps_decodes decodesD by blast

interpretation compact_json: prefix_code "dumps '','' '':''" json_ok json_stop
proof
  show "x = y \<and> s = t" if "json_ok x" "json_ok y" "json_stop s" "json_stop t"
    "dumps '','' '':'' x @ s = dumps '','' '':'' y @ t" for x y s t
    using that by (intro dumps_decode [of "'',''" x y s t "'':''"]) simp_all
qed simp

interpretation default_json: prefix_code "dumps '', '' '': ''" json_ok json_stop
proof
  show "x = y \<and> s = t" if "json_ok x" "json_ok y" "json_stop s" "json_stop t"
    "dumps '', '' '': '' x @ s = dumps '', '' '': '' y @ t" for x y s t
    using that by (intro dumps_decode [of "'', ''" x y s t "'': ''"]) simp_all
qed simp

lemma json_ok_sort_keys: "json_ok (sort_keys v) = json_ok v"
  by (induction v rule: sort_keys.induct) (auto simp: list_all_iff)

end
