(* ===== verification/Liq_Compiler.thy ===== *)
theory Liq_Compiler
  imports Liq_Wf Liorm_Catalog Py_Json
begin

text \<open>
  \<open>stmt_to_ir\<close> of \<open>liq/parser.py\<close> and \<open>liq/compiler.py\<close>: from a statement to its JSON form, and
  to SQL text with numbered placeholders and the schema of its parameters. The hash in the
  plan id (\<open>hashlib.sha256(text.encode()).hexdigest()\<close>) is the parameter \<open>sha\<close>.
\<close>

section \<open>The JSON form of a statement\<close>

definition ident_ir :: "ident_ref \<Rightarrow> json" where
  "ident_ir i = JObj [(''kind'', JStr ''IdentRef''), (''raw'', JStr (raw i)),
     (''parts'', JList (map JStr (parts i)))]"

fun rhs_ir :: "rhs_value \<Rightarrow> json" where
  "rhs_ir (Param n) = JObj [(''kind'', JStr ''ParamRef''), (''name'', JStr n)]"
| "rhs_ir (Lit (CStr s)) = JObj [(''kind'', JStr ''Const''), (''value'', JStr s)]"
| "rhs_ir (Lit (CInt k)) = JObj [(''kind'', JStr ''Const''), (''value'', JInt k)]"

definition pred_ir :: "where_pred option \<Rightarrow> json" where
  "pred_ir p = (case p of None \<Rightarrow> JNull
     | Some q \<Rightarrow> JObj [(''column'', JStr (p_column q)), (''op'', JStr (p_op q)), (''rhs'', rhs_ir (p_rhs q))])"

text \<open>\<open>list(xs) if xs else None\<close>: no list and the empty list give the same.\<close>

definition columns_ir :: "string list option \<Rightarrow> json" where
  "columns_ir cs = (case cs of None \<Rightarrow> JNull | Some [] \<Rightarrow> JNull | Some ws \<Rightarrow> JList (map JStr ws))"

definition bindings_ir :: "bindings \<Rightarrow> json" where
  "bindings_ir bs = JList (map (\<lambda>(f, v). JObj [(''field'', JStr f), (''rhs'', rhs_ir v)]) bs)"

fun stmt_to_ir :: "stmt \<Rightarrow> json" where
  "stmt_to_ir (ReadStmt s) = JObj [
     (''op'', JStr ''read''),
     (''table'', ident_ir (r_table s)),
     (''columns'', columns_ir (r_columns s)),
     (''where'', pred_ir (r_where s)),
     (''order'',
        (case r_order_column s of
           None \<Rightarrow> JNull
         | Some c \<Rightarrow> if c = [] then JNull
             else JObj [(''column'', JStr c), (''desc'', JBool (r_order_desc s))])),
     (''limit'', (case r_limit s of None \<Rightarrow> JNull | Some n \<Rightarrow> JInt n))]"
| "stmt_to_ir (InsertStmt s) = JObj [
     (''op'', JStr ''insert''),
     (''table'', ident_ir (i_table s)),
     (''bindings'', bindings_ir (i_bindings s))]"
| "stmt_to_ir (UpdateStmt s) = JObj [
     (''op'', JStr ''update''),
     (''table'', ident_ir (u_table s)),
     (''bindings'', bindings_ir (u_bindings s)),
     (''where'', pred_ir (u_where s)),
     (''returning'', columns_ir (u_returning s))]"
| "stmt_to_ir (DeleteStmt s) = JObj [
     (''op'', JStr ''delete''), (''table'', ident_ir (d_table s)), (''where'', pred_ir (d_where s))]"

section \<open>Parameters\<close>

type_synonym param_schema = "(string, string) dict"

definition PARAM_TYPES :: "(string, string) dict" where
  "PARAM_TYPES = [(''status'', ''text''), (''publisher_id'', ''uuid''), (''pub'', ''uuid''),
     (''pkg'', ''uuid''), (''ver'', ''text''), (''sha'', ''text''), (''name'', ''text''),
     (''id'', ''uuid''), (''rid'', ''uuid'')]"

definition param_type :: "string \<Rightarrow> string" where
  "param_type n = (case map_of PARAM_TYPES n of None \<Rightarrow> ''text'' | Some t \<Rightarrow> t)"

text \<open>\<open>_collect_params\<close> has no caller: \<open>compile\<close> takes the schema that the lowering builds. It is
  modelled as the reference for that schema (\<open>schema_of\<close> in \<open>Sql_Plan\<close>).\<close>

fun add_param :: "string list \<Rightarrow> rhs_value \<Rightarrow> string list" where
  "add_param names (Param n) = add_new n names"
| "add_param names (Lit c) = names"

definition pred_params :: "string list \<Rightarrow> where_pred option \<Rightarrow> string list" where
  "pred_params names p = (case p of None \<Rightarrow> names | Some q \<Rightarrow> add_param names (p_rhs q))"

definition binding_params :: "string list \<Rightarrow> bindings \<Rightarrow> string list" where
  "binding_params names bs = foldl (\<lambda>ns b. add_param ns (snd b)) names bs"

fun collect_params :: "stmt \<Rightarrow> string list" where
  "collect_params (ReadStmt s) = pred_params [] (r_where s)"
| "collect_params (InsertStmt s) = binding_params [] (i_bindings s)"
| "collect_params (UpdateStmt s) = pred_params (binding_params [] (u_bindings s)) (u_where s)"
| "collect_params (DeleteStmt s) = pred_params [] (d_where s)"

section \<open>Lowering to SQL text\<close>

definition quoted :: "string \<Rightarrow> string" where
  "quoted w = CHR 0x22 # w @ [CHR 0x22]"

definition quoted_table :: "string \<Rightarrow> string result" where
  "quoted_table table_raw =
     ebind (resolve_table table_raw) (\<lambda>(schema, name). Inr (quoted schema @ ''.'' @ quoted name))"

definition quoted_col :: "string \<Rightarrow> string \<Rightarrow> string result" where
  "quoted_col table_raw column =
     ebind (resolve_column table_raw column) (\<lambda>(schema, table, col).
       Inr (quoted schema @ ''.'' @ quoted table @ ''.'' @ quoted col))"

definition placeholder :: "nat \<Rightarrow> string" where
  "placeholder n = ''$'' @ show_nat n"

type_synonym sql_plan = "string \<times> param_schema"

text \<open>\<open>if stmt.columns\<close>: a projection that is present and not empty.\<close>

definition truthy :: "'a list option \<Rightarrow> 'a list" where
  "truthy xs = (case xs of None \<Rightarrow> [] | Some ys \<Rightarrow> ys)"

definition lower_read :: "read_stmt \<Rightarrow> sql_plan result" where
  "lower_read s =
     ebind (quoted_table (raw (r_table s))) (\<lambda>qtable.
     ebind (if truthy (r_columns s) = [] then Inr ''*''
            else ebind (emap (quoted_col (raw (r_table s))) (truthy (r_columns s)))
                   (\<lambda>qs. Inr (join '', '' qs))) (\<lambda>cols.
     let sql = ''SELECT '' @ cols @ '' FROM '' @ qtable in
     ebind (case r_where s of
              None \<Rightarrow> Inr (sql, [])
            | Some p \<Rightarrow>
                (case p_rhs p of
                   Lit _ \<Rightarrow> Inl CompileError
                 | Param pname \<Rightarrow>
                     ebind (quoted_col (raw (r_table s)) (p_column p)) (\<lambda>qc.
                       Inr (sql @ '' WHERE '' @ qc @ '' = '' @ placeholder 1, [(pname, param_type pname)]))))
       (\<lambda>(sql, schema).
     ebind (if truthy (r_order_column s) = [] then Inr sql
            else ebind (quoted_col (raw (r_table s)) (truthy (r_order_column s))) (\<lambda>qc.
                   Inr (sql @ '' ORDER BY '' @ qc @ (if r_order_desc s then '' DESC'' else '' ASC''))))
       (\<lambda>sql.
     Inr (case r_limit s of None \<Rightarrow> sql | Some n \<Rightarrow> sql @ '' LIMIT '' @ show_int n, schema)))))"

text \<open>The loop of \<open>_lower_insert\<close>; the state is (fields, placeholders, schema, idx).\<close>

fun insert_loop :: "string \<Rightarrow> bindings \<Rightarrow> string list \<times> string list \<times> param_schema \<times> nat \<Rightarrow>
    (string list \<times> string list \<times> param_schema \<times> nat) result" where
  "insert_loop t [] st = Inr st"
| "insert_loop t ((field, r) # bs) (flds, phs, schema, idx) =
     ebind (resolve_column t field) (\<lambda>_.
     ebind (quoted_col t field) (\<lambda>qc.
       (case r of
          Param n \<Rightarrow> insert_loop t bs (flds @ [qc], phs @ [placeholder (idx + 1)],
                       AList.update n (param_type n) schema, idx + 1)
        | Lit _ \<Rightarrow> insert_loop t bs (flds @ [qc], phs @ [''%s''], schema, idx))))"

definition lower_insert :: "insert_stmt \<Rightarrow> sql_plan result" where
  "lower_insert s =
     ebind (quoted_table (raw (i_table s))) (\<lambda>qtable.
     ebind (insert_loop (raw (i_table s)) (i_bindings s) ([], [], [], 0)) (\<lambda>(flds, phs, schema, idx).
     Inr (''INSERT INTO '' @ qtable @ '' ('' @ join '', '' flds @ '') VALUES ('' @ join '', '' phs @ '')'',
          schema)))"

text \<open>The loop of \<open>_lower_update\<close>; the state is (sets, schema, idx).\<close>

fun sets_loop :: "string \<Rightarrow> bindings \<Rightarrow> string list \<times> param_schema \<times> nat \<Rightarrow>
    (string list \<times> param_schema \<times> nat) result" where
  "sets_loop t [] st = Inr st"
| "sets_loop t ((field, r) # bs) (sets, schema, idx) =
     ebind (resolve_column t field) (\<lambda>_.
     ebind (quoted_col t field) (\<lambda>qc.
       (case r of
          Param n \<Rightarrow> sets_loop t bs (sets @ [qc @ '' = '' @ placeholder (idx + 1)],
                       AList.update n (param_type n) schema, idx + 1)
        | Lit _ \<Rightarrow> sets_loop t bs (sets @ [qc @ '' = %s''], schema, idx))))"

definition lower_update :: "update_stmt \<Rightarrow> sql_plan result" where
  "lower_update s =
     ebind (quoted_table (raw (u_table s))) (\<lambda>qtable.
     ebind (sets_loop (raw (u_table s)) (u_bindings s) ([], [], 0)) (\<lambda>(sets, schema, idx).
     let sql = ''UPDATE '' @ qtable @ '' SET '' @ join '', '' sets in
     ebind (case u_where s of
              None \<Rightarrow> Inr (sql, schema)
            | Some p \<Rightarrow>
                (case p_rhs p of
                   Lit _ \<Rightarrow> Inl CompileError
                 | Param pname \<Rightarrow>
                     ebind (quoted_col (raw (u_table s)) (p_column p)) (\<lambda>qc.
                       Inr (sql @ '' WHERE '' @ qc @ '' = '' @ placeholder (idx + 1),
                            AList.update pname (param_type pname) schema))))
       (\<lambda>(sql, schema).
     if truthy (u_returning s) = [] then Inr (sql, schema)
     else ebind (emap (quoted_col (raw (u_table s))) (truthy (u_returning s))) (\<lambda>qs.
            Inr (sql @ '' RETURNING '' @ join '', '' qs, schema)))))"

definition lower_delete :: "delete_stmt \<Rightarrow> sql_plan result" where
  "lower_delete s =
     ebind (quoted_table (raw (d_table s))) (\<lambda>qtable.
     let sql = ''DELETE FROM '' @ qtable in
     (case d_where s of
        None \<Rightarrow> Inr (sql, [])
      | Some p \<Rightarrow>
          (case p_rhs p of
             Lit _ \<Rightarrow> Inl CompileError
           | Param pname \<Rightarrow>
               ebind (quoted_col (raw (d_table s)) (p_column p)) (\<lambda>qc.
                 Inr (sql @ '' WHERE '' @ qc @ '' = $1'', [(pname, param_type pname)])))))"

fun lower_stmt :: "stmt \<Rightarrow> sql_plan result" where
  "lower_stmt (ReadStmt s) = lower_read s"
| "lower_stmt (InsertStmt s) = lower_insert s"
| "lower_stmt (UpdateStmt s) = lower_update s"
| "lower_stmt (DeleteStmt s) = lower_delete s"

section \<open>Compilation\<close>

record compile_result =
  c_plan_id :: string
  c_ir :: json
  c_sql :: string
  c_param_schema :: param_schema

definition plan_id_of :: "(string \<Rightarrow> string) \<Rightarrow> string \<Rightarrow> json \<Rightarrow> string" where
  "plan_id_of sha source ir = ''liq:'' @ take 16 (sha (source @ dumps '', '' '': '' (sort_keys ir)))"

definition compile :: "(string \<Rightarrow> string) \<Rightarrow> string \<Rightarrow> compile_result result" where
  "compile sha source =
     ebind (parse source) (\<lambda>s.
     let ir = stmt_to_ir s in
     ebind (lower_stmt s) (\<lambda>(sql, schema).
     Inr \<lparr>c_plan_id = plan_id_of sha source ir, c_ir = ir, c_sql = sql, c_param_schema = schema\<rparr>))"

end
