(* ===== verification/Sql_Plan.thy ===== *)
theory Sql_Plan
  imports Liq_Compiler
begin

text \<open>
  The abstract contract of \<open>liq/compiler.py\<close>: a SQL plan as a data type, a specification
  \<open>resolve_stmt\<close> that says which plan a statement means, and the refinement: lowering a
  statement to text is resolving it and printing the plan. The properties of the SQL text are
  then properties of plans.
\<close>

section \<open>Abstract SQL plans\<close>

type_synonym sql_table = "string \<times> string"
type_synonym sql_col = "string \<times> string \<times> string"

text \<open>A value of an insert or update: placeholder \<open>$n\<close>, or the \<open>%s\<close> that stands for a constant.\<close>

datatype slot = Bound nat | Unbound

datatype sql_plan_ast =
    Select (sel_cols: "sql_col list") sql_table "sql_col option" "(sql_col \<times> bool) option" "int option"
  | Insert sql_table "(sql_col \<times> slot) list"
  | Update sql_table "(sql_col \<times> slot) list" "(sql_col \<times> nat) option" "sql_col list"
  | Delete sql_table "sql_col option"

section \<open>Printing a plan\<close>

fun render_table :: "sql_table \<Rightarrow> string" where
  "render_table (s, t) = quoted s @ ''.'' @ quoted t"

fun render_col :: "sql_col \<Rightarrow> string" where
  "render_col (s, t, c) = quoted s @ ''.'' @ quoted t @ ''.'' @ quoted c"

fun render_slot :: "slot \<Rightarrow> string" where
  "render_slot (Bound n) = placeholder n"
| "render_slot Unbound = ''%s''"

definition render_where :: "(sql_col \<times> nat) option \<Rightarrow> string" where
  "render_where w = (case w of None \<Rightarrow> [] | Some (c, n) \<Rightarrow> '' WHERE '' @ render_col c @ '' = '' @ placeholder n)"

definition render_order :: "(sql_col \<times> bool) option \<Rightarrow> string" where
  "render_order w = (case w of None \<Rightarrow> []
     | Some (c, desc) \<Rightarrow> '' ORDER BY '' @ render_col c @ (if desc then '' DESC'' else '' ASC''))"

definition render_limit :: "int option \<Rightarrow> string" where
  "render_limit l = (case l of None \<Rightarrow> [] | Some n \<Rightarrow> '' LIMIT '' @ show_int n)"

definition render_cols :: "sql_col list \<Rightarrow> string" where
  "render_cols cs = join '', '' (map render_col cs)"

definition render_set :: "sql_col \<times> slot \<Rightarrow> string" where
  "render_set cs = render_col (fst cs) @ '' = '' @ render_slot (snd cs)"

fun render_sql :: "sql_plan_ast \<Rightarrow> string" where
  "render_sql (Select cs t w od l) =
     ''SELECT '' @ (if cs = [] then ''*'' else render_cols cs) @ '' FROM '' @ render_table t @
     render_where (map_option (\<lambda>c. (c, 1)) w) @ render_order od @ render_limit l"
| "render_sql (Insert t vs) =
     ''INSERT INTO '' @ render_table t @ '' ('' @ render_cols (map fst vs) @ '') VALUES ('' @
     join '', '' (map (\<lambda>v. render_slot (snd v)) vs) @ '')''"
| "render_sql (Update t vs w ret) =
     ''UPDATE '' @ render_table t @ '' SET '' @ join '', '' (map render_set vs) @ render_where w @
     (if ret = [] then [] else '' RETURNING '' @ render_cols ret)"
| "render_sql (Delete t w) =
     ''DELETE FROM '' @ render_table t @ render_where (map_option (\<lambda>c. (c, 1)) w)"

section \<open>Which plan a statement means\<close>

text \<open>The parameters in a list of bindings, in their order, and the slots they get.\<close>

fun rhs_params :: "rhs_value \<Rightarrow> string list" where
  "rhs_params (Param n) = [n]"
| "rhs_params (Lit c) = []"

definition pred_occs :: "where_pred option \<Rightarrow> string list" where
  "pred_occs p = (case p of None \<Rightarrow> [] | Some q \<Rightarrow> rhs_params (p_rhs q))"

definition binding_occs :: "bindings \<Rightarrow> string list" where
  "binding_occs bs = concat (map (\<lambda>b. rhs_params (snd b)) bs)"

fun param_occs :: "stmt \<Rightarrow> string list" where
  "param_occs (ReadStmt s) = pred_occs (r_where s)"
| "param_occs (InsertStmt s) = binding_occs (i_bindings s)"
| "param_occs (UpdateStmt s) = binding_occs (u_bindings s) @ pred_occs (u_where s)"
| "param_occs (DeleteStmt s) = pred_occs (d_where s)"

fun bind_slots :: "nat \<Rightarrow> bindings \<Rightarrow> slot list" where
  "bind_slots k [] = []"
| "bind_slots k ((f, Param n) # bs) = Bound (k + 1) # bind_slots (k + 1) bs"
| "bind_slots k ((f, Lit c) # bs) = Unbound # bind_slots k bs"

definition resolve_where :: "string \<Rightarrow> where_pred option \<Rightarrow> sql_col option result" where
  "resolve_where t w =
     (case w of
        None \<Rightarrow> Inr None
      | Some p \<Rightarrow> (case p_rhs p of
                     Lit _ \<Rightarrow> Inl CompileError
                   | Param _ \<Rightarrow> ebind (resolve_column t (p_column p)) (\<lambda>c. Inr (Some c))))"

fun resolve_stmt :: "stmt \<Rightarrow> sql_plan_ast result" where
  "resolve_stmt (ReadStmt s) = (let t = raw (r_table s) in
     ebind (resolve_table t) (\<lambda>tab.
     ebind (emap (resolve_column t) (truthy (r_columns s))) (\<lambda>cs.
     ebind (resolve_where t (r_where s)) (\<lambda>w.
     ebind (if truthy (r_order_column s) = [] then Inr None
            else ebind (resolve_column t (truthy (r_order_column s))) (\<lambda>c. Inr (Some (c, r_order_desc s))))
       (\<lambda>od. Inr (Select cs tab w od (r_limit s)))))))"
| "resolve_stmt (InsertStmt s) = (let t = raw (i_table s) in
     ebind (resolve_table t) (\<lambda>tab.
     ebind (emap (resolve_column t) (map fst (i_bindings s))) (\<lambda>cs.
     Inr (Insert tab (zip cs (bind_slots 0 (i_bindings s)))))))"
| "resolve_stmt (UpdateStmt s) = (let t = raw (u_table s) in
     ebind (resolve_table t) (\<lambda>tab.
     ebind (emap (resolve_column t) (map fst (u_bindings s))) (\<lambda>cs.
     ebind (resolve_where t (u_where s)) (\<lambda>w.
     ebind (emap (resolve_column t) (truthy (u_returning s))) (\<lambda>ret.
     Inr (Update tab (zip cs (bind_slots 0 (u_bindings s)))
            (map_option (\<lambda>c. (c, length (binding_occs (u_bindings s)) + 1)) w) ret))))))"
| "resolve_stmt (DeleteStmt s) = (let t = raw (d_table s) in
     ebind (resolve_table t) (\<lambda>tab.
     ebind (resolve_where t (d_where s)) (\<lambda>w. Inr (Delete tab w))))"

definition schema_of :: "stmt \<Rightarrow> param_schema" where
  "schema_of s = map (\<lambda>n. (n, param_type n)) (collect_params s)"


section \<open>Parameters and the schema\<close>

text \<open>The schema of a list of parameter occurrences, in the order of first occurrence.\<close>

definition occs_schema :: "param_schema \<Rightarrow> string list \<Rightarrow> param_schema" where
  "occs_schema = foldl (\<lambda>sc n. AList.update n (param_type n) sc)"

lemma occs_schema_simps [simp]:
  "occs_schema sc [] = sc"
  "occs_schema sc (n # ns) = occs_schema (AList.update n (param_type n) sc) ns"
  "occs_schema sc (ns @ ms) = occs_schema (occs_schema sc ns) ms"
  by (simp_all add: occs_schema_def)

definition typed :: "string list \<Rightarrow> param_schema" where
  "typed ns = map (\<lambda>n. (n, param_type n)) ns"

lemma update_typed: "AList.update n (param_type n) (typed ns) = typed (add_new n ns)"
  unfolding typed_def by (induction ns) (auto simp: add_new_def)

lemma occs_schema_typed: "occs_schema (typed ms) ns = typed (foldl (\<lambda>xs n. add_new n xs) ms ns)"
  by (induction ns arbitrary: ms) (auto simp: update_typed)

lemma dict_keys_typed [simp]: "dict_keys (typed ns) = ns"
  by (simp add: typed_def dict_keys_def comp_def)

definition first_occs :: "string list \<Rightarrow> string list" where
  "first_occs = foldl (\<lambda>xs n. add_new n xs) []"

lemma occs_schema_Nil: "occs_schema [] ns = typed (first_occs ns)"
  using occs_schema_typed [of "[]" ns] by (simp add: first_occs_def typed_def)

lemma add_param_occs: "add_param ns r = foldl (\<lambda>xs n. add_new n xs) ns (rhs_params r)"
  by (cases r) auto

lemma binding_params_occs: "binding_params ns bs = foldl (\<lambda>xs n. add_new n xs) ns (binding_occs bs)"
  unfolding binding_params_def binding_occs_def by (induction bs arbitrary: ns) (auto simp: add_param_occs)

lemma pred_params_occs: "pred_params ns p = foldl (\<lambda>xs n. add_new n xs) ns (pred_occs p)"
  by (auto simp: pred_params_def pred_occs_def add_param_occs split: option.split)

lemma collect_params_first_occs: "collect_params s = first_occs (param_occs s)"
  by (cases s) (auto simp: first_occs_def binding_params_occs pred_params_occs)

lemma first_occs_snoc: "first_occs (ns @ [n]) = add_new n (first_occs ns)"
  by (simp add: first_occs_def)

lemma set_first_occs [simp]: "set (first_occs ns) = set ns"
  by (induction ns rule: rev_induct) (auto simp: first_occs_snoc, simp add: first_occs_def)

lemma distinct_first_occs [simp]: "distinct (first_occs ns)"
  by (induction ns rule: rev_induct) (auto simp: first_occs_snoc, simp add: first_occs_def)

lemma first_occs_id: "distinct ns \<Longrightarrow> first_occs ns = ns"
  by (induction ns rule: rev_induct) (auto simp: first_occs_snoc add_new_def, simp add: first_occs_def)

lemma length_first_occs: "length (first_occs ns) = length ns \<longleftrightarrow> distinct ns"
proof -
  have "length (first_occs ns) = card (set ns)"
    using distinct_card [OF distinct_first_occs [of ns]] by simp
  then show ?thesis by (metis card_distinct distinct_card)
qed

section \<open>Lowering is resolving and printing\<close>

lemma quoted_table_eq: "quoted_table t = ebind (resolve_table t) (\<lambda>tab. Inr (render_table tab))"
  by (auto simp: quoted_table_def ebind_def split: sum.split)

lemma quoted_col_eq: "quoted_col t c = ebind (resolve_column t c) (\<lambda>k. Inr (render_col k))"
  by (auto simp: quoted_col_def ebind_def split: sum.split)

lemma emap_quoted_col:
  "emap (quoted_col t) cs = ebind (emap (resolve_column t) cs) (\<lambda>ks. Inr (map render_col ks))"
  by (induction cs) (auto simp: quoted_col_eq ebind_def split: sum.splits)

lemma insert_loop_eq:
  "insert_loop t bs (fs, ps, sc, k) =
     ebind (emap (resolve_column t) (map fst bs)) (\<lambda>cs.
       Inr (fs @ map render_col cs, ps @ map render_slot (bind_slots k bs),
            occs_schema sc (binding_occs bs), k + length (binding_occs bs)))"
proof (induction k bs arbitrary: fs ps sc rule: bind_slots.induct)
  case (2 k f n bs)
  then show ?case
    by (cases "resolve_column t f"; cases "emap (resolve_column t) (map fst bs)")
      (simp_all add: quoted_col_eq binding_occs_def ebind_assoc)
next
  case (3 k f c bs)
  then show ?case
    by (cases "resolve_column t f"; cases "emap (resolve_column t) (map fst bs)")
      (simp_all add: quoted_col_eq binding_occs_def ebind_assoc)
qed (simp add: binding_occs_def)

lemma length_bind_slots [simp]: "length (bind_slots k bs) = length bs"
  by (induction k bs rule: bind_slots.induct) auto

lemma sets_loop_eq:
  "sets_loop t bs (ss, sc, k) =
     ebind (emap (resolve_column t) (map fst bs)) (\<lambda>cs.
       Inr (ss @ map render_set (zip cs (bind_slots k bs)),
            occs_schema sc (binding_occs bs), k + length (binding_occs bs)))"
proof (induction k bs arbitrary: ss sc rule: bind_slots.induct)
  case (2 k f n bs)
  then show ?case
    by (cases "resolve_column t f"; cases "emap (resolve_column t) (map fst bs)")
      (simp_all add: quoted_col_eq binding_occs_def ebind_assoc render_set_def)
next
  case (3 k f c bs)
  then show ?case
    by (cases "resolve_column t f"; cases "emap (resolve_column t) (map fst bs)")
      (simp_all add: quoted_col_eq binding_occs_def ebind_assoc render_set_def)
qed (simp add: binding_occs_def)

text \<open>The three optional clauses, each as resolve-then-print.\<close>

lemma columns_eq:
  "(if truthy cs = [] then Inr ''*'' else ebind (emap (quoted_col t) (truthy cs)) (\<lambda>qs. Inr (join '', '' qs)))
     = ebind (emap (resolve_column t) (truthy cs)) (\<lambda>ks. Inr (if ks = [] then ''*'' else render_cols ks))"
proof (cases "emap (resolve_column t) (truthy cs)")
  case (Inr ks)
  then show ?thesis
    using emap_length [OF Inr] by (auto simp: emap_quoted_col render_cols_def)
qed (auto simp: emap_quoted_col)

lemma where_eq:
  "(case w of
      None \<Rightarrow> Inr (sql, sc)
    | Some p \<Rightarrow> (case p_rhs p of
        Lit _ \<Rightarrow> Inl CompileError
      | Param n \<Rightarrow> ebind (quoted_col t (p_column p)) (\<lambda>qc.
          Inr (sql @ '' WHERE '' @ qc @ '' = '' @ placeholder k, AList.update n (param_type n) sc)))) =
   ebind (resolve_where t w) (\<lambda>c.
     Inr (sql @ render_where (map_option (\<lambda>c. (c, k)) c), occs_schema sc (pred_occs w)))"
proof (cases w)
  case None
  then show ?thesis by (simp add: resolve_where_def render_where_def pred_occs_def)
next
  case (Some p)
  show ?thesis
  proof (cases "p_rhs p")
    case (Param n)
    with Some show ?thesis
      by (cases "resolve_column t (p_column p)")
        (simp_all add: resolve_where_def render_where_def pred_occs_def quoted_col_eq)
  next
    case (Lit c)
    with Some show ?thesis by (simp add: resolve_where_def)
  qed
qed

lemma order_eq:
  "(if c = [] then Inr sql else ebind (quoted_col t c) (\<lambda>qc. Inr (sql @ '' ORDER BY '' @ qc @ d))) =
   ebind (if c = [] then Inr None else ebind (resolve_column t c) (\<lambda>k. Inr (Some k)))
     (\<lambda>k. Inr (sql @ (case k of None \<Rightarrow> [] | Some k \<Rightarrow> '' ORDER BY '' @ render_col k @ d)))"
  by (cases "resolve_column t c") (auto simp: quoted_col_eq)

lemma lower_read_eq:
  "lower_read s = ebind (resolve_stmt (ReadStmt s)) (\<lambda>q. Inr (render_sql q, schema_of (ReadStmt s)))"
proof -
  let ?t = "raw (r_table s)"
  note eqs = lower_read_def quoted_table_eq columns_eq order_eq
    where_eq [where sc = "[]" and k = 1, unfolded update.simps(1)]
  have sc: "schema_of (ReadStmt s) = occs_schema [] (pred_occs (r_where s))"
    by (simp add: schema_of_def occs_schema_Nil typed_def collect_params_first_occs del: collect_params.simps)
  show ?thesis
    by (cases "resolve_table ?t"; cases "emap (resolve_column ?t) (truthy (r_columns s))";
        cases "resolve_where ?t (r_where s)"; cases "truthy (r_order_column s) = []";
        cases "resolve_column ?t (truthy (r_order_column s))"; cases "r_limit s")
      (simp_all add: eqs sc Let_def render_order_def render_limit_def quoted_col_eq)
qed

lemma lower_insert_eq:
  "lower_insert s = ebind (resolve_stmt (InsertStmt s)) (\<lambda>q. Inr (render_sql q, schema_of (InsertStmt s)))"
proof -
  let ?t = "raw (i_table s)" and ?bs = "i_bindings s"
  have sc: "schema_of (InsertStmt s) = occs_schema [] (binding_occs ?bs)"
    by (simp add: schema_of_def occs_schema_Nil typed_def collect_params_first_occs del: collect_params.simps)
  have zip: "map fst (zip cs (bind_slots 0 ?bs)) = cs" "map snd (zip cs (bind_slots 0 ?bs)) = bind_slots 0 ?bs"
    if "emap (resolve_column ?t) (map fst ?bs) = Inr cs" for cs
    using emap_length [OF that] by simp_all
  show ?thesis
    by (cases "resolve_table ?t"; cases "emap (resolve_column ?t) (map fst ?bs)")
      (auto simp: lower_insert_def quoted_table_eq insert_loop_eq sc render_cols_def zip
        map_map [of render_slot snd, symmetric, unfolded comp_def])
qed

lemma lower_update_eq:
  "lower_update s = ebind (resolve_stmt (UpdateStmt s)) (\<lambda>q. Inr (render_sql q, schema_of (UpdateStmt s)))"
proof -
  let ?t = "raw (u_table s)" and ?bs = "u_bindings s"
  have sc: "schema_of (UpdateStmt s) = occs_schema (occs_schema [] (binding_occs ?bs)) (pred_occs (u_where s))"
    by (simp add: schema_of_def occs_schema_Nil typed_def [symmetric] collect_params_first_occs first_occs_def
        occs_schema_typed del: collect_params.simps)
  have ret: "emap (resolve_column ?t) (truthy (u_returning s)) = Inr ks \<Longrightarrow> (ks = []) = (truthy (u_returning s) = [])"
    for ks using emap_length [of "resolve_column ?t" "truthy (u_returning s)" ks] by auto
  show ?thesis
    by (cases "resolve_table ?t"; cases "emap (resolve_column ?t) (map fst ?bs)";
        cases "resolve_where ?t (u_where s)"; cases "truthy (u_returning s) = []";
        cases "emap (resolve_column ?t) (truthy (u_returning s))")
      (simp_all add: lower_update_def quoted_table_eq sets_loop_eq 
        where_eq sc Let_def emap_quoted_col render_cols_def ret)
qed

lemma lower_delete_eq:
  "lower_delete s = ebind (resolve_stmt (DeleteStmt s)) (\<lambda>q. Inr (render_sql q, schema_of (DeleteStmt s)))"
proof -
  have dollar1: "'' = $1'' = '' = '' @ placeholder 1"
    by code_simp
  have sc: "schema_of (DeleteStmt s) = occs_schema [] (pred_occs (d_where s))"
    by (simp add: schema_of_def occs_schema_Nil typed_def collect_params_first_occs del: collect_params.simps)
  note weq = where_eq [where sc = "[]" and k = 1, unfolded update.simps(1)]
  show ?thesis
    by (cases "resolve_table (raw (d_table s))"; cases "resolve_where (raw (d_table s)) (d_where s)")
      (simp_all only: lower_delete_def quoted_table_eq dollar1 weq Let_def sc ebind_Inr ebind_Inl
        resolve_stmt.simps render_sql.simps append_assoc)
qed

theorem lower_stmt_refines:
  "lower_stmt s = ebind (resolve_stmt s) (\<lambda>q. Inr (render_sql q, schema_of s))"
  by (cases s) (simp_all only: lower_stmt.simps lower_read_eq lower_insert_eq lower_update_eq lower_delete_eq)

end
