(* ===== verification/Sql_Safety.thy ===== *)
theory Sql_Safety
  imports Sql_Plan
begin

text \<open>
  What the compiler guarantees of its SQL: a plan only names a table of the allowlist and
  columns of that table; its text is made of a small alphabet; the text determines the plan,
  so no identifier can change the structure of the statement it stands in; constants of the
  program have no influence on the text.
\<close>

section \<open>The names of a plan\<close>

fun plan_table :: "sql_plan_ast \<Rightarrow> sql_table" where
  "plan_table (Select cs t w od l) = t"
| "plan_table (Insert t vs) = t"
| "plan_table (Update t vs w ret) = t"
| "plan_table (Delete t w) = t"

definition opt_cols :: "'a option \<Rightarrow> 'a list" where
  "opt_cols w = (case w of None \<Rightarrow> [] | Some c \<Rightarrow> [c])"

fun plan_cols :: "sql_plan_ast \<Rightarrow> sql_col list" where
  "plan_cols (Select cs t w od l) = cs @ opt_cols w @ map fst (opt_cols od)"
| "plan_cols (Insert t vs) = map fst vs"
| "plan_cols (Update t vs w ret) = map fst vs @ map fst (opt_cols w) @ ret"
| "plan_cols (Delete t w) = opt_cols w"

fun stmt_table :: "stmt \<Rightarrow> string" where
  "stmt_table (ReadStmt s) = raw (r_table s)"
| "stmt_table (InsertStmt s) = raw (i_table s)"
| "stmt_table (UpdateStmt s) = raw (u_table s)"
| "stmt_table (DeleteStmt s) = raw (d_table s)"

text \<open>Every column of a plan is a column of the catalog for the plan's own table.\<close>

lemma resolve_where_col:
  "resolve_where t w = Inr c \<Longrightarrow> k \<in> set (opt_cols c) \<Longrightarrow> \<exists>n. resolve_column t n = Inr k"
  by (auto simp: resolve_where_def opt_cols_def ebind_eq_Inr split: option.splits rhs_value.splits)

lemma resolve_stmt_table: "resolve_stmt s = Inr q \<Longrightarrow> resolve_table (stmt_table s) = Inr (plan_table q)"
  by (cases s) (auto simp: Let_def ebind_eq_Inr)

lemma resolve_stmt_cols:
  assumes "resolve_stmt s = Inr q" "k \<in> set (plan_cols q)"
  shows "\<exists>n. resolve_column (stmt_table s) n = Inr k"
proof -
  have zip: "k \<in> fst ` set (zip cs xs) \<Longrightarrow> k \<in> set cs" for cs :: "sql_col list" and xs :: "slot list"
    by (auto dest: set_zip_leftD)
  show ?thesis
    using assms
    by (cases s)
      (auto simp: Let_def ebind_eq_Inr opt_cols_def dest!: zip emap_set resolve_where_col
        split: option.splits if_splits)
qed

text \<open>The names of a plan may stand in SQL text.\<close>

fun col_ok :: "sql_col \<Rightarrow> bool" where
  "col_ok (s, t, c) \<longleftrightarrow> sql_name s \<and> sql_name t \<and> sql_name c"

definition plan_ok :: "sql_plan_ast \<Rightarrow> bool" where
  "plan_ok q \<longleftrightarrow> sql_name (fst (plan_table q)) \<and> sql_name (snd (plan_table q)) \<and> list_all col_ok (plan_cols q)"

text \<open>The allowlist the plan was resolved against.\<close>

definition allowed_plan :: "string \<Rightarrow> sql_plan_ast \<Rightarrow> bool" where
  "allowed_plan name q \<longleftrightarrow>
     resolve_table name = Inr (plan_table q) \<and>
     (case map_of CATALOG_ALLOWLIST (table_key (fst (plan_table q)) (snd (plan_table q))) of
        Some (Some cs) \<Rightarrow>
          list_all (\<lambda>(s, t, c). (s, t) = plan_table q \<and> c \<in> cs) (plan_cols q)
      | _ \<Rightarrow> False)"

lemma resolve_stmt_allowed:
  assumes "resolve_stmt s = Inr q"
  shows "allowed_plan (stmt_table s) q"
proof -
  obtain sc t where t: "plan_table q = (sc, t)" by (cases "plan_table q")
  have r: "resolve_table (stmt_table s) = Inr (sc, t)"
    using resolve_stmt_table [OF assms] t by simp
  obtain cs where cs: "map_of CATALOG_ALLOWLIST (table_key sc t) = Some (Some cs)"
    using catalog_lookup [OF resolve_table_Inr(3) [OF r]] by blast
  have "(\<lambda>(s, t, c). (s, t) = plan_table q \<and> c \<in> cs) k" if k: "k \<in> set (plan_cols q)" for k
  proof -
    obtain n where "resolve_column (stmt_table s) n = Inr k"
      using resolve_stmt_cols [OF assms k] by blast
    then show ?thesis
      using r t cs by (cases k) (auto simp: resolve_column_Inr)
  qed
  then show ?thesis
    using r t cs by (simp add: allowed_plan_def list_all_iff)
qed

lemma resolve_stmt_ok:
  assumes "resolve_stmt s = Inr q"
  shows "plan_ok q"
proof -
  obtain sc t where t: "plan_table q = (sc, t)" by (cases "plan_table q")
  with resolve_stmt_table [OF assms] have "sql_name sc \<and> sql_name t"
    using cat.tab_ok by simp
  moreover have "col_ok k" if "k \<in> set (plan_cols q)" for k
    using resolve_stmt_cols [OF assms that] cat.col_ok by (cases k) auto
  ultimately show ?thesis
    using t by (simp add: plan_ok_def list_all_iff)
qed

section \<open>The alphabet of the text\<close>

text \<open>No quote other than the double quotes around the names, no semicolon, no backslash, no
  line break: only these characters.\<close>

definition sql_char :: "char \<Rightarrow> bool" where
  "sql_char c \<longleftrightarrow> is_upper_ascii c \<or> is_lower_ascii c \<or> is_decimal c \<or>
     c \<in> set (CHR 0x22 # ''_ .,()=$*%-'')"

lemma sql_char_simps [simp]:
  "is_upper_ascii c \<Longrightarrow> sql_char c" "is_lower_ascii c \<Longrightarrow> sql_char c" "is_decimal c \<Longrightarrow> sql_char c"
  "c \<in> set (CHR 0x22 # ''_ .,()=$*%-'') \<Longrightarrow> sql_char c"
  unfolding sql_char_def by blast+

lemma underscore_ord: "ord c = 95 \<longleftrightarrow> c = CHR ''_''"
proof -
  have "ord (CHR ''_'') = 95" by code_simp
  then show ?thesis using ord_inject [of c "CHR ''_''"] by simp
qed

lemma sql_name_chars: "sql_name w \<Longrightarrow> list_all sql_char w"
proof -
  have "sql_name_char c \<Longrightarrow> sql_char c" for c
    unfolding sql_name_char_def underscore_ord by auto
  then show "sql_name w \<Longrightarrow> list_all sql_char w"
    by (auto simp: sql_name_def list_all_iff)
qed

lemma sql_lits [simp]:
  "sql_char (CHR '' '')" "sql_char (CHR ''.'')" "sql_char (CHR '','')" "sql_char (CHR ''('')"
  "sql_char (CHR '')'')" "sql_char (CHR ''='')" "sql_char (CHR ''$'')" "sql_char (CHR ''*'')"
  "sql_char (CHR ''%'')" "sql_char (CHR ''-'')" "sql_char (CHR ''s'')" "sql_char (CHR 0x22)"
  by code_simp+

lemma sql_upper [simp]:
  "sql_char (CHR ''A'')" "sql_char (CHR ''B'')" "sql_char (CHR ''C'')" "sql_char (CHR ''D'')"
  "sql_char (CHR ''E'')" "sql_char (CHR ''F'')" "sql_char (CHR ''G'')" "sql_char (CHR ''H'')"
  "sql_char (CHR ''I'')" "sql_char (CHR ''L'')" "sql_char (CHR ''M'')" "sql_char (CHR ''N'')"
  "sql_char (CHR ''O'')" "sql_char (CHR ''P'')" "sql_char (CHR ''R'')" "sql_char (CHR ''S'')"
  "sql_char (CHR ''T'')" "sql_char (CHR ''U'')" "sql_char (CHR ''V'')" "sql_char (CHR ''W'')"
  "sql_char (CHR ''Y'')"
  by code_simp+

lemma show_chars [simp]: "list_all sql_char (show_nat n)" "list_all sql_char (show_int i)"
proof -
  have "is_decimal c \<Longrightarrow> sql_char c" for c by simp
  then show *: "list_all sql_char (show_nat m)" for m
    using show_nat_decimal [of m] by (auto simp: list_all_iff)
  then show "list_all sql_char (show_int i)"
    by (simp add: show_int_def)
qed

lemma quoted_chars [simp]: "sql_name w \<Longrightarrow> list_all sql_char (quoted w)"
  by (simp add: quoted_def sql_name_chars)

lemma render_col_chars [simp]: "col_ok c \<Longrightarrow> list_all sql_char (render_col c)"
  by (cases c) simp

lemma render_slot_chars [simp]: "list_all sql_char (render_slot v)"
  by (cases v) (simp_all add: placeholder_def)

lemma join_chars: "list_all P sep \<Longrightarrow> list_all (list_all P) ws \<Longrightarrow> list_all P (join sep ws)"
  by (induction sep ws rule: join.induct) auto

lemma list_allD: "list_all P xs \<Longrightarrow> x \<in> set xs \<Longrightarrow> P x"
  by (simp add: list_all_iff)

lemma join_map_chars:
  "list_all P sep \<Longrightarrow> (\<And>x. x \<in> set xs \<Longrightarrow> list_all P (f x)) \<Longrightarrow> list_all P (join sep (map f xs))"
  by (rule join_chars) (auto simp: list.pred_map list.pred_set)

lemma render_cols_chars [simp]: "list_all col_ok cs \<Longrightarrow> list_all sql_char (render_cols cs)"
  unfolding render_cols_def by (rule join_map_chars) (auto intro: render_col_chars dest: list_allD simp del: render_col.simps)

lemma render_sql_chars:
  assumes "plan_ok q"
  shows "list_all sql_char (render_sql q)"
proof -
  have tab: "list_all sql_char (render_table (plan_table q))"
    using assms by (cases "plan_table q") (simp add: plan_ok_def)
  have sets: "list_all sql_char (join '', '' (map render_set vs))" if "list_all col_ok (map fst vs)" for vs
    by (rule join_map_chars)
      (use that in \<open>auto intro!: render_col_chars dest: list_allD simp: list.pred_map render_set_def simp del: render_col.simps\<close>)
  have slots: "list_all sql_char (join '', '' (map (\<lambda>v. render_slot (snd v)) vs))"
    for vs :: "(sql_col \<times> slot) list"
    by (rule join_map_chars) simp_all
  show ?thesis
    using assms tab sets slots
    by (cases q)
      (auto simp: plan_ok_def render_where_def render_order_def render_limit_def opt_cols_def placeholder_def
        simp del: render_table.simps render_col.simps split: option.splits)
qed

section \<open>The text determines the plan\<close>

lemma sql_name_no_quote: "sql_name w \<Longrightarrow> CHR 0x22 \<notin> set w"
proof -
  have "\<not> sql_name_char (CHR 0x22)" by code_simp
  then show "sql_name w \<Longrightarrow> CHR 0x22 \<notin> set w"
    by (auto simp: sql_name_def list_all_iff)
qed

interpretation name_code: prefix_code quoted sql_name "\<lambda>_. True"
proof
  fix v w s t
  assume n: "sql_name v" "sql_name w" and eq: "quoted v @ s = quoted w @ t"
  have "v = w \<and> CHR 0x22 # s = CHR 0x22 # t"
  proof (rule run_decode [where P = "\<lambda>c. c \<noteq> CHR 0x22"])
    show "v @ CHR 0x22 # s = w @ CHR 0x22 # t"
      using eq by (simp add: quoted_def)
  qed (use n sql_name_no_quote in \<open>auto simp: list_all_iff\<close>)
  then show "v = w \<and> s = t" by simp
qed simp

definition table_ok :: "sql_table \<Rightarrow> bool" where
  "table_ok t \<longleftrightarrow> sql_name (fst t) \<and> sql_name (snd t)"

interpretation table_code: prefix_code render_table table_ok "\<lambda>_. True"
  by unfold_locales (auto simp: table_ok_def name_code.decode_iff)

interpretation col_code: prefix_code render_col col_ok "\<lambda>_. True"
  by unfold_locales (auto simp: name_code.decode_iff)

definition no_digit_next :: "string \<Rightarrow> bool" where
  "no_digit_next s \<longleftrightarrow> s = [] \<or> \<not> is_decimal (hd s)"

interpretation nat_code: prefix_code show_nat "\<lambda>_. True" no_digit_next
proof
  fix m n s t
  assume "no_digit_next s" "no_digit_next t" "show_nat m @ s = show_nat n @ t"
  then have "show_nat m = show_nat n \<and> s = t"
    using show_nat_decimal by (intro run_decode [where P = is_decimal]) (auto simp: no_digit_next_def)
  then show "m = n \<and> s = t" by (simp add: show_nat_inject)
qed (simp add: no_digit_next_def)

interpretation slot_code: prefix_code render_slot "\<lambda>_. True" no_digit_next
proof
  fix v w s t
  assume "no_digit_next s" "no_digit_next t" "render_slot v @ s = render_slot w @ t"
  then show "v = w \<and> s = t"
    by (cases v; cases w) (simp_all add: placeholder_def nat_code.decode_iff)
qed (simp add: no_digit_next_def)

interpretation set_code: prefix_code render_set "\<lambda>v. col_ok (fst v)" no_digit_next
proof
  fix v w s t
  assume ok: "col_ok (fst v)" "col_ok (fst w)" and nd: "no_digit_next s" "no_digit_next t"
    and eq: "render_set v @ s = render_set w @ t"
  from eq have "render_col (fst v) @ ('' = '' @ render_slot (snd v) @ s) =
      render_col (fst w) @ ('' = '' @ render_slot (snd w) @ t)"
    by (simp add: render_set_def)
  from col_code.decode [OF ok _ _ this] have *: "fst v = fst w" "render_slot (snd v) @ s = render_slot (snd w) @ t"
    by simp_all
  with slot_code.decode [OF _ _ nd *(2)] show "v = w \<and> s = t"
    by (simp add: prod_eq_iff)
qed (simp add: no_digit_next_def)

lemma sql_not_decimal [simp]:
  "\<not> is_decimal (CHR '','')" "\<not> is_decimal (CHR '' '')" "\<not> is_decimal (CHR '')'')"
  by code_simp+

lemma no_digit_next_Cons [simp]: "no_digit_next (c # s) \<longleftrightarrow> \<not> is_decimal c"
  and no_digit_next_Nil [simp]: "no_digit_next []"
  by (simp_all add: no_digit_next_def)

lemma render_col_hd: "\<exists>r. render_col c = CHR 0x22 # r"
  by (cases c) (simp add: quoted_def)

lemma render_slot_hd: "render_slot v \<noteq> [] \<and> hd (render_slot v) \<in> {CHR ''$'', CHR ''%''}"
  by (cases v) (simp_all add: placeholder_def)

text \<open>Lists of columns, slots and assignments, closed by a blank or a bracket.\<close>

lemma cols_decode:
  assumes "list_all col_ok cs" "list_all col_ok ds" "cl \<in> {CHR '' '', CHR '')''}"
    and "render_cols cs @ cl # s = render_cols ds @ cl # t"
  shows "cs = ds \<and> s = t"
proof (rule join_decode [where ok = col_ok and stop = "\<lambda>_. True"])
  show "join '', '' (map render_col cs) @ cl # s = join '', '' (map render_col ds) @ cl # t"
    using assms(4) by (simp add: render_cols_def)
  show "render_col x \<noteq> [] \<and> hd (render_col x) \<noteq> cl" for x
    using render_col_hd [of x] assms(3) by auto
  show "x = y \<and> u = v"
    if "x \<in> set cs" "col_ok y" "True" "True" "render_col x @ u = render_col y @ v" for x y u v
    using that assms(1) by (intro col_code.decode) (auto dest: list_allD)
qed (use assms in auto)

lemma slots_decode:
  assumes "join '', '' (map render_slot vs) @ CHR '')'' # s = join '', '' (map render_slot ws) @ CHR '')'' # t"
  shows "vs = ws \<and> s = t"
proof (rule join_decode [where ok = "\<lambda>_. True" and stop = no_digit_next])
  show "render_slot x \<noteq> [] \<and> hd (render_slot x) \<noteq> CHR '')''" for x
    using render_slot_hd [of x] by auto
  show "x = y \<and> u = v"
    if "no_digit_next u" "no_digit_next v" "render_slot x @ u = render_slot y @ v" for x y u v
    using that by (intro slot_code.decode) auto
qed (use assms in \<open>auto simp: list_all_iff\<close>)

lemma sets_decode:
  assumes "list_all (\<lambda>v. col_ok (fst v)) vs" "list_all (\<lambda>v. col_ok (fst v)) ws"
    and "join '', '' (map render_set vs) @ CHR '' '' # s = join '', '' (map render_set ws) @ CHR '' '' # t"
  shows "vs = ws \<and> s = t"
proof (rule join_decode [where ok = "\<lambda>v. col_ok (fst v)" and stop = no_digit_next])
  show "render_set x \<noteq> [] \<and> hd (render_set x) \<noteq> CHR '' ''" for x
    using render_col_hd [of "fst x"] by (auto simp: render_set_def)
  show "x = y \<and> u = v"
    if "x \<in> set vs" "col_ok (fst y)" "no_digit_next u" "no_digit_next v" "render_set x @ u = render_set y @ v"
    for x y u v
    using that assms(1) by (intro set_code.decode) (auto dest: list_allD)
qed (use assms in auto)

text \<open>The optional clauses at the end of a statement.\<close>

lemma limit_decode: "render_limit l = render_limit m \<longleftrightarrow> l = m"
  by (cases l; cases m) (simp_all add: render_limit_def show_int_inject)

lemma order_decode:
  assumes "list_all col_ok (map fst (opt_cols v))" "list_all col_ok (map fst (opt_cols w))"
  shows "render_order v @ render_limit l = render_order w @ render_limit m \<longleftrightarrow> v = w \<and> l = m"
proof (cases v)
  case None
  then show ?thesis
    by (cases w; cases l; cases m) (auto simp: render_order_def render_limit_def show_int_inject)
next
  case (Some a)
  obtain c d where a: "a = (c, d)" by (cases a)
  show ?thesis
  proof (cases w)
    case None
    with Some a show ?thesis
      by (cases l; cases m) (auto simp: render_order_def render_limit_def)
  next
    case (Some b)
    obtain c' d' where b: "b = (c', d')" by (cases b)
    have ok: "col_ok c" "col_ok c'"
      using assms \<open>v = Some a\<close> Some a b by (simp_all add: opt_cols_def)
    have "render_order v @ render_limit l = render_order w @ render_limit m \<longleftrightarrow>
        render_col c @ ((if d then '' DESC'' else '' ASC'') @ render_limit l) =
        render_col c' @ ((if d' then '' DESC'' else '' ASC'') @ render_limit m)"
      using \<open>v = Some a\<close> Some a b by (simp add: render_order_def)
    also have "\<dots> \<longleftrightarrow> c = c' \<and> (if d then '' DESC'' else '' ASC'') @ render_limit l =
        (if d' then '' DESC'' else '' ASC'') @ render_limit m"
      using ok by (rule col_code.decode_iff) simp_all
    finally show ?thesis
      using \<open>v = Some a\<close> Some a b by (auto simp: limit_decode)
  qed
qed

text \<open>A \<open>where\<close> clause, when what follows is not a second one.\<close>

definition no_where :: "string \<Rightarrow> bool" where
  "no_where s \<longleftrightarrow> no_digit_next s \<and> take 6 s \<noteq> '' WHERE''"

lemma where_decode:
  assumes "list_all col_ok (map fst (opt_cols v))" "list_all col_ok (map fst (opt_cols w))"
    and "no_where s" "no_where t"
  shows "render_where v @ s = render_where w @ t \<longleftrightarrow> v = w \<and> s = t"
proof (cases v)
  case None
  then show ?thesis
    using assms(3) by (cases w) (auto simp: render_where_def no_where_def)
next
  case (Some a)
  obtain c k where a: "a = (c, k)" by (cases a)
  show ?thesis
  proof (cases w)
    case None
    with Some a show ?thesis
      using assms(4) by (auto simp: render_where_def no_where_def)
  next
    case (Some b)
    obtain c' k' where b: "b = (c', k')" by (cases b)
    have ok: "col_ok c" "col_ok c'"
      using assms(1,2) \<open>v = Some a\<close> Some a b by (simp_all add: opt_cols_def)
    have "render_where v @ s = render_where w @ t \<longleftrightarrow>
        render_col c @ ('' = $'' @ show_nat k @ s) = render_col c' @ ('' = $'' @ show_nat k' @ t)"
      using \<open>v = Some a\<close> Some a b by (simp add: render_where_def placeholder_def)
    also have "\<dots> \<longleftrightarrow> c = c' \<and> '' = $'' @ show_nat k @ s = '' = $'' @ show_nat k' @ t"
      using ok by (rule col_code.decode_iff) simp_all
    also have "\<dots> \<longleftrightarrow> c = c' \<and> k = k' \<and> s = t"
      using assms(3,4) by (simp add: nat_code.decode_iff no_where_def)
    finally show ?thesis
      using \<open>v = Some a\<close> Some a b by auto
  qed
qed

lemma no_where_tail: "no_where (render_order od @ render_limit l)"
  by (cases od; cases l) (auto simp: no_where_def render_order_def render_limit_def)

lemma opt_cols_map [simp]: "opt_cols (map_option f w) = map f (opt_cols w)"
  by (cases w) (simp_all add: opt_cols_def)

lemma map_option_pair: "map_option (\<lambda>c. (c, k)) v = map_option (\<lambda>c. (c, k)) w \<longleftrightarrow> v = w"
  by (cases v; cases w) auto

text \<open>The four statement forms; a plan with assignments or columns has at least one
  (an empty \<open>insert\<close> prints two empty lists).\<close>

lemma render_cols_hd: "ks \<noteq> [] \<Longrightarrow> \<exists>r. render_cols ks = CHR 0x22 # r"
proof (cases ks)
  case (Cons k ks')
  obtain r where "render_col k = CHR 0x22 # r"
    using render_col_hd by blast
  with Cons show ?thesis
    by (cases ks') (simp_all add: render_cols_def)
qed simp

lemma projection_decode:
  assumes ok: "list_all col_ok cs" "list_all col_ok ds"
    and eq: "(if cs = [] then ''*'' else render_cols cs) @ CHR '' '' # s =
             (if ds = [] then ''*'' else render_cols ds) @ CHR '' '' # t"
  shows "cs = ds \<and> s = t"
proof (cases "cs = [] \<or> ds = []")
  case True
  then show ?thesis
    using eq render_cols_hd [of cs] render_cols_hd [of ds] by (cases "cs = []"; cases "ds = []") auto
next
  case False
  then show ?thesis
    using eq cols_decode [OF ok, of "CHR '' ''" s t] by simp
qed

lemma select_decode:
  assumes ok: "plan_ok (Select cs t w od l)" "plan_ok (Select cs' t' w' od' l')"
    and eq: "render_sql (Select cs t w od l) = render_sql (Select cs' t' w' od' l')"
  shows "Select cs t w od l = Select cs' t' w' od' l'"
proof -
  let ?X = "\<lambda>cs. if cs = [] then ''*'' else render_cols cs"
  let ?tail = "\<lambda>w od l. render_where (map_option (\<lambda>c. (c, 1)) w) @ render_order od @ render_limit l"
  have cols: "list_all col_ok cs" "list_all col_ok cs'" and tabs: "table_ok t" "table_ok t'"
    using ok by (simp_all add: plan_ok_def table_ok_def)
  have "?X cs @ CHR '' '' # (''FROM '' @ render_table t @ ?tail w od l) =
      ?X cs' @ CHR '' '' # (''FROM '' @ render_table t' @ ?tail w' od' l')"
    using eq by simp
  from projection_decode [OF cols this] have "cs = cs' \<and>
      ''FROM '' @ render_table t @ ?tail w od l = ''FROM '' @ render_table t' @ ?tail w' od' l'" .
  then have "cs = cs'" "render_table t @ ?tail w od l = render_table t' @ ?tail w' od' l'" by simp_all
  moreover from table_code.decode [OF tabs _ _ this(2)] have "t = t'" "?tail w od l = ?tail w' od' l'"
    by simp_all
  moreover from this(2) have "w = w' \<and> od = od' \<and> l = l'"
    using ok by (simp add: where_decode no_where_tail order_decode map_option_pair plan_ok_def comp_def)
  ultimately show ?thesis by simp
qed

lemma insert_decode:
  assumes ok: "plan_ok (Insert t vs)" "plan_ok (Insert t' vs')"
    and eq: "render_sql (Insert t vs) = render_sql (Insert t' vs')"
  shows "Insert t vs = Insert t' vs'"
proof -
  let ?S = "\<lambda>vs. join '', '' (map render_slot (map snd vs)) @ CHR '')'' # []"
  have cols: "list_all col_ok (map fst vs)" "list_all col_ok (map fst vs')" and tabs: "table_ok t" "table_ok t'"
    using ok by (simp_all add: plan_ok_def table_ok_def)
  have "render_table t @ '' ('' @ render_cols (map fst vs) @ CHR '')'' # ('' VALUES ('' @ ?S vs) =
      render_table t' @ '' ('' @ render_cols (map fst vs') @ CHR '')'' # ('' VALUES ('' @ ?S vs')"
    using eq by (simp add: comp_def)
  from table_code.decode [OF tabs _ _ this] have t: "t = t'"
    and *: "render_cols (map fst vs) @ CHR '')'' # ('' VALUES ('' @ ?S vs) =
      render_cols (map fst vs') @ CHR '')'' # ('' VALUES ('' @ ?S vs')"
    by simp_all
  from cols_decode [OF cols _ *] have f: "map fst vs = map fst vs'" and "?S vs = ?S vs'"
    by simp_all
  with slots_decode [of "map snd vs" "[]" "map snd vs'" "[]"] have "map snd vs = map snd vs'" by simp
  with f t show ?thesis by (metis zip_map_fst_snd)
qed

lemma update_decode:
  assumes ok: "plan_ok (Update t vs w ret)" "plan_ok (Update t' vs' w' ret')"
    and eq: "render_sql (Update t vs w ret) = render_sql (Update t' vs' w' ret')"
  shows "Update t vs w ret = Update t' vs' w' ret'"
proof -
  let ?R = "\<lambda>ret. if ret = [] then [] else '' RETURNING '' @ render_cols ret"
  have cols: "list_all col_ok ret" "list_all col_ok ret'" and tabs: "table_ok t" "table_ok t'"
    and vals: "list_all (\<lambda>v. col_ok (fst v)) vs" "list_all (\<lambda>v. col_ok (fst v)) vs'"
    using ok by (simp_all add: plan_ok_def table_ok_def list.pred_map comp_def)
  let ?tail = "\<lambda>w ret. render_where w @ ?R ret @ '' ''"
  let ?J = "\<lambda>vs. join '', '' (map render_set vs)"
  have "render_table t @ '' SET '' @ ?J vs @ ?tail w ret = render_table t' @ '' SET '' @ ?J vs' @ ?tail w' ret'"
    using eq by simp
  from table_code.decode [OF tabs _ _ this] have t: "t = t'" and J: "?J vs @ ?tail w ret = ?J vs' @ ?tail w' ret'"
    by simp_all
  have blank: "\<exists>r. ?tail w ret = CHR '' '' # r" for w ret
    by (cases w) (auto simp: render_where_def)
  obtain r r' where r: "?tail w ret = CHR '' '' # r" and r': "?tail w' ret' = CHR '' '' # r'"
    using blank by meson
  have "vs = vs' \<and> r = r'"
    using J unfolding r r' by (rule sets_decode [OF vals])
  then have vs: "vs = vs'" and tail: "?tail w ret = ?tail w' ret'"
    using r r' by simp_all
  have no: "no_where (?R ret @ '' '')" for ret
    by (auto simp: no_where_def)
  from tail have w: "w = w'" and R: "?R ret @ '' '' = ?R ret' @ '' ''"
    using ok no by (simp_all only: where_decode plan_ok_def plan_cols.simps list_all_append)
  from R have "ret = ret'"
    using cols_decode [OF cols, of "CHR '' ''" "[]" "[]"] by (auto split: if_splits)
  with t vs w show ?thesis by simp
qed

lemma delete_decode:
  assumes ok: "plan_ok (Delete t w)" "plan_ok (Delete t' w')"
    and eq: "render_sql (Delete t w) = render_sql (Delete t' w')"
  shows "Delete t w = Delete t' w'"
proof -
  have tabs: "table_ok t" "table_ok t'"
    using ok by (simp_all add: plan_ok_def table_ok_def)
  from eq have "render_table t @ render_where (map_option (\<lambda>c. (c, 1)) w) =
      render_table t' @ render_where (map_option (\<lambda>c. (c, 1)) w')" by simp
  from table_code.decode [OF tabs _ _ this] show ?thesis
    using ok where_decode [of "map_option (\<lambda>c. (c, 1)) w" "map_option (\<lambda>c. (c, 1)) w'" "[]" "[]"]
    by (simp add: no_where_def map_option_pair plan_ok_def comp_def)
qed

lemma render_sql_inject:
  assumes "plan_ok p" "plan_ok q" "render_sql p = render_sql q"
  shows "p = q"
  using assms
  by (cases p; cases q)
    (auto simp del: render_sql.simps dest: select_decode insert_decode update_decode delete_decode,
     simp_all)

end
