(* ===== verification/Py_Json_Loads.thy ===== *)
theory Py_Json_Loads
  imports Py_Json
begin

text \<open>
  \<open>json.loads\<close> of the standard library, for texts whose code points are below 256: a recursive
  descent over the text, with \<open>None\<close> for every \<open>JSONDecodeError\<close> and for the \<open>ValueError\<close> of an
  integer with too many digits. A float is kept as its text.
  A surrogate or other escape above \<open>\u00ff\<close> is outside the model and refused. The main
  result is the round trip with \<open>dumps\<close>.
\<close>

section \<open>Strings and numbers\<close>

definition json_ws :: "char \<Rightarrow> bool" where
  "json_ws c \<longleftrightarrow> ord c \<in> {32, 9, 10, 13}"

definition skip_ws :: "string \<Rightarrow> string" where
  "skip_ws = dropWhile json_ws"

definition hex_val :: "char \<Rightarrow> nat option" where
  "hex_val c =
     (if is_decimal c then Some (ord c - 48)
      else if 97 \<le> ord c \<and> ord c \<le> 102 then Some (ord c - 87)
      else if 65 \<le> ord c \<and> ord c \<le> 70 then Some (ord c - 55)
      else None)"

definition hex4 :: "char \<Rightarrow> char \<Rightarrow> char \<Rightarrow> char \<Rightarrow> nat option" where
  "hex4 a b c d = (case (hex_val a, hex_val b, hex_val c, hex_val d) of
     (Some w, Some x, Some y, Some z) \<Rightarrow> Some (((w * 16 + x) * 16 + y) * 16 + z) | _ \<Rightarrow> None)"

definition short_unescape :: "char \<Rightarrow> char option" where
  "short_unescape c =
     (if ord c \<in> {34, 92, 47} then Some c
      else if c = CHR ''b'' then Some (char_of (8::nat))
      else if c = CHR ''f'' then Some (char_of (12::nat))
      else if c = CHR ''n'' then Some (char_of (10::nat))
      else if c = CHR ''r'' then Some (char_of (13::nat))
      else if c = CHR ''t'' then Some (char_of (9::nat))
      else None)"

definition consume :: "char \<Rightarrow> (string \<times> string) option \<Rightarrow> (string \<times> string) option" where
  "consume c r = map_option (\<lambda>(w, t). (c # w, t)) r"

text \<open>The characters after the opening quote; control characters are not allowed (\<open>strict\<close>).\<close>

fun scan_string :: "string \<Rightarrow> (string \<times> string) option" where
  "scan_string [] = None"
| "scan_string (c # t) =
     (if ord c = 34 then Some ([], t)
      else if ord c = 92 then
        (case t of
           [] \<Rightarrow> None
         | e # r \<Rightarrow>
             if e = CHR ''u'' then
               (case r of
                  w # x # y # z # r' \<Rightarrow>
                    (case hex4 w x y z of
                       None \<Rightarrow> None
                     | Some n \<Rightarrow> if n < 256 then consume (char_of n) (scan_string r') else None)
                | _ \<Rightarrow> None)
             else (case short_unescape e of None \<Rightarrow> None | Some x \<Rightarrow> consume x (scan_string r)))
      else if ord c < 32 then None
      else consume c (scan_string t))"

text \<open>\<open>(-?(?:0|[1-9]\d*))(\.\d+)?([eE][-+]?\d+)?\<close>\<close>

definition scan_digits :: "string \<Rightarrow> string \<times> string" where
  "scan_digits s = (takeWhile is_decimal s, dropWhile is_decimal s)"

definition scan_int :: "string \<Rightarrow> (string \<times> string) option" where
  "scan_int s =
     (let (sign, t) = (case s of c # t \<Rightarrow> if c = CHR ''-'' then ([c], t) else ([], s) | [] \<Rightarrow> ([], s)) in
      (case t of
         [] \<Rightarrow> None
       | d # r \<Rightarrow>
           if d = CHR ''0'' then Some (sign @ [d], r)
           else if is_decimal d then Some (sign @ fst (scan_digits t), snd (scan_digits t))
           else None))"

definition scan_frac :: "string \<Rightarrow> string \<times> string" where
  "scan_frac s =
     (case s of
        c # r \<Rightarrow> if c = CHR ''.'' \<and> fst (scan_digits r) \<noteq> []
                 then (c # fst (scan_digits r), snd (scan_digits r)) else ([], s)
      | [] \<Rightarrow> ([], s))"

definition scan_exp :: "string \<Rightarrow> string \<times> string" where
  "scan_exp s =
     (case s of
        c # r \<Rightarrow>
          if c = CHR ''e'' \<or> c = CHR ''E'' then
            (let (sign, t) = (case r of d # t \<Rightarrow> if d = CHR ''-'' \<or> d = CHR ''+'' then ([d], t) else ([], r)
                                      | [] \<Rightarrow> ([], r)) in
             if fst (scan_digits t) \<noteq> [] then (c # sign @ fst (scan_digits t), snd (scan_digits t)) else ([], s))
          else ([], s)
      | [] \<Rightarrow> ([], s))"

definition read_int :: "string \<Rightarrow> int" where
  "read_int w = (case w of
     c # d \<Rightarrow> if c = CHR ''-'' then - int (nat_of_digits d) else int (nat_of_digits w) | [] \<Rightarrow> 0)"

text \<open>\<open>int\<close> raises on too many digits, the sign not counted.\<close>

definition int_digits :: "string \<Rightarrow> string" where
  "int_digits w = (case w of c # d \<Rightarrow> if c = CHR ''-'' then d else w | [] \<Rightarrow> [])"

definition scan_number :: "string \<Rightarrow> (json \<times> string) option" where
  "scan_number s =
     (case scan_int s of
        None \<Rightarrow> None
      | Some (i, r1) \<Rightarrow>
          (let (f, r2) = scan_frac r1; (e, r3) = scan_exp r2 in
           if f = [] \<and> e = [] then (if within_limit (int_digits i) then Some (JInt (read_int i), r3) else None)
           else Some (JFloat (i @ f @ e), r3)))"

definition scan_word :: "string \<Rightarrow> (json \<times> string) option" where
  "scan_word s =
     (if starts_with s ''null'' then Some (JNull, drop 4 s)
      else if starts_with s ''true'' then Some (JBool True, drop 4 s)
      else if starts_with s ''false'' then Some (JBool False, drop 5 s)
      else case scan_number s of
        Some r \<Rightarrow> Some r
      | None \<Rightarrow>
          if starts_with s ''NaN'' then Some (JFloat ''NaN'', drop 3 s)
          else if starts_with s ''Infinity'' then Some (JFloat ''Infinity'', drop 8 s)
          else if starts_with s ''-Infinity'' then Some (JFloat ''-Infinity'', drop 9 s)
          else None)"

section \<open>Values\<close>

lemma scan_string_length [termination_simp]: "scan_string s = Some (w, r) \<Longrightarrow> length r < length s"
proof (induction s arbitrary: w r rule: scan_string.induct)
  case (2 c t)
  then show ?case
    by (force simp: consume_def split: if_splits list.splits option.splits)
qed simp

lemma skip_ws_length [simp]: "length (skip_ws s) \<le> length s"
  by (simp add: skip_ws_def length_dropWhile_le)

lemma skip_ws_Cons: "skip_ws s = c # t \<Longrightarrow> length t < length s"
  using skip_ws_length [of s] by simp

lemma skip_ws_measure: "2 * length s < k \<Longrightarrow> 2 * length (skip_ws s) < k"
  using skip_ws_length [of s] by linarith

lemma skip_ws_less: "length s < k \<Longrightarrow> length (skip_ws s) < k"
  using skip_ws_length [of s] by linarith

text \<open>
  A value, the rest of an array after an element is due, the rest of an object after a name is
  due. The guards on the length of the remaining text always hold (\<open>parse_shorter\<close>); they make
  the recursion visibly well-founded.
\<close>

function parse_value :: "string \<Rightarrow> (json \<times> string) option"
  and parse_elems :: "json list \<Rightarrow> string \<Rightarrow> (json \<times> string) option"
  and parse_members :: "(string, json) dict \<Rightarrow> string \<Rightarrow> (json \<times> string) option"
where
  "parse_value s =
     (case s of
        [] \<Rightarrow> None
      | c # t \<Rightarrow>
          if ord c = 34 then map_option (\<lambda>(w, r). (JStr w, r)) (scan_string t)
          else if c = CHR ''['' then
            (if starts_with (skip_ws t) '']'' then Some (JList [], tl (skip_ws t))
             else parse_elems [] (skip_ws t))
          else if c = CHR ''{'' then
            (if starts_with (skip_ws t) ''}'' then Some (JObj [], tl (skip_ws t))
             else parse_members [] (skip_ws t))
          else scan_word s)"
| "parse_elems acc s =
     (case parse_value s of
        None \<Rightarrow> None
      | Some (v, r) \<Rightarrow>
          (case skip_ws r of
             [] \<Rightarrow> None
           | c # r' \<Rightarrow>
               if c = CHR '']'' then Some (JList (acc @ [v]), r')
               else if c = CHR '','' \<and> length r < length s then parse_elems (acc @ [v]) (skip_ws r')
               else None))"
| "parse_members acc s =
     (case s of
        [] \<Rightarrow> None
      | q # t \<Rightarrow>
          if ord q \<noteq> 34 then None
          else (case scan_string t of
             None \<Rightarrow> None
           | Some (k, r) \<Rightarrow>
               (case skip_ws r of
                  [] \<Rightarrow> None
                | col # r1 \<Rightarrow>
                    if col \<noteq> CHR '':'' then None
                    else (case parse_value (skip_ws r1) of
                       None \<Rightarrow> None
                     | Some (v, r2) \<Rightarrow>
                         (case skip_ws r2 of
                            [] \<Rightarrow> None
                          | c # r3 \<Rightarrow>
                              if c = CHR ''}'' then Some (JObj (AList.update k v acc), r3)
                              else if c = CHR '','' \<and> length r2 < length s
                              then parse_members (AList.update k v acc) (skip_ws r3)
                              else None)))))"
  by pat_completeness auto

termination
proof (relation "measure (\<lambda>x. case x of Inl s \<Rightarrow> 2 * length s
    | Inr (Inl (acc, s)) \<Rightarrow> 2 * length s + 1 | Inr (Inr (acc, s)) \<Rightarrow> 2 * length s + 1)", goal_cases)
qed (auto dest!: skip_ws_Cons scan_string_length intro!: skip_ws_measure skip_ws_less)

declare parse_value.simps [simp del] parse_elems.simps [simp del] parse_members.simps [simp del]

lemma scan_word_length: "scan_word s = Some (v, r) \<Longrightarrow> length r < length s"
proof -
  have ws: "starts_with s w \<Longrightarrow> w \<noteq> [] \<Longrightarrow> length (drop (length w) s) < length s" for w
    by (cases s) (auto simp: starts_with_def)
  have dig: "length (snd (scan_digits t)) \<le> length t" for t
    by (simp add: scan_digits_def length_dropWhile_le)
  have frac: "length (snd (scan_frac t)) \<le> length t" for t
    using dig [of "tl t"] by (cases t) (auto simp: scan_frac_def)
  have exp: "length (snd (scan_exp t)) \<le> length t" for t
    using dig [of "tl t"] dig [of "tl (tl t)"]
    by (cases t; cases "tl t") (auto simp: scan_exp_def Let_def)
  have int: "scan_int t = Some (i, r) \<Longrightarrow> length r < length t" for t i r
    using dig [of t] dig [of "tl t"] dig [of "tl (tl t)"]
    by (cases t; cases "tl t") (auto simp: scan_int_def scan_digits_def split: if_splits)
  have num: "scan_number s = Some (v, r) \<Longrightarrow> length r < length s"
    using int frac exp
    by (auto simp: scan_number_def Let_def split: option.splits prod.splits if_splits)
      (metis le_less_trans snd_conv)+
  show "scan_word s = Some (v, r) \<Longrightarrow> length r < length s"
    using ws [of "''null''"] ws [of "''true''"] ws [of "''false''"] ws [of "''NaN''"] ws [of "''Infinity''"]
      ws [of "''-Infinity''"] num
    by (auto simp: scan_word_def split: if_splits option.splits)
qed

text \<open>How a successful parse of members and elements goes on.\<close>

lemma parse_elems_Some:
  assumes "parse_elems acc s = Some (v, r)"
  shows "\<exists>w r1 c r2. parse_value s = Some (w, r1) \<and> skip_ws r1 = c # r2 \<and>
    (c = CHR '']'' \<and> r = r2 \<or> c \<noteq> CHR '']'' \<and> (c = CHR '','' \<and> length r1 < length s) \<and>
       parse_elems (acc @ [w]) (skip_ws r2) = Some (v, r))"
  using assms by (auto simp: parse_elems.simps [of acc s] split: option.splits list.splits if_splits)

lemma parse_members_Some:
  assumes "parse_members d s = Some (v, r)"
  shows "\<exists>q t k r0 r1 w r2 c r3. s = q # t \<and> ord q = 34 \<and> scan_string t = Some (k, r0) \<and>
    skip_ws r0 = CHR '':'' # r1 \<and> parse_value (skip_ws r1) = Some (w, r2) \<and> skip_ws r2 = c # r3 \<and>
    (c = CHR ''}'' \<and> r = r3 \<or> c \<noteq> CHR ''}'' \<and> (c = CHR '','' \<and> length r2 < length s) \<and>
       parse_members (AList.update k w d) (skip_ws r3) = Some (v, r))"
  using assms by (auto simp: parse_members.simps [of d s] split: option.splits list.splits if_splits)

text \<open>Every parser consumes something, so the guards above are never what fails.\<close>

lemma parse_shorter:
  "parse_value s = Some (v, r) \<Longrightarrow> length r < length s"
  "parse_elems acc s = Some (v, r) \<Longrightarrow> length r < length s"
  "parse_members d s = Some (v, r) \<Longrightarrow> length r < length s"
proof (induction s and acc s and d s arbitrary: v r and v r and v r
    rule: parse_value_parse_elems_parse_members.induct)
  case (1 s)
  obtain c t where s: "s = c # t"
    using "1.prems" by (cases s) (simp_all add: parse_value.simps)
  note val = "1.prems"[unfolded s, unfolded parse_value.simps [of "c # t"] list.case]
  have tl: "length (tl (skip_ws t)) < length s" and le: "length (skip_ws t) < length s"
    using skip_ws_length [of t] s by (cases "skip_ws t"; auto)+
  consider "ord c = 34" | "ord c \<noteq> 34" "c = CHR ''[''" | "ord c \<noteq> 34" "c \<noteq> CHR ''[''" "c = CHR ''{''"
    | "ord c \<noteq> 34" "c \<noteq> CHR ''[''" "c \<noteq> CHR ''{''" by blast
  then show ?case
  proof cases
    case 2
    then show ?thesis using val tl le "1.IH"(1) [OF s 2] by (force split: if_splits)
  next
    case 3
    then show ?thesis using val tl le "1.IH"(2) [OF s 3] by (force split: if_splits)
  qed (use val s in \<open>auto dest!: scan_string_length scan_word_length\<close>)
next
  case (2 acc s)
  obtain w r1 c r2 where w: "parse_value s = Some (w, r1)" and c: "skip_ws r1 = c # r2"
    and cont: "c = CHR '']'' \<and> r = r2 \<or> c \<noteq> CHR '']'' \<and> (c = CHR '','' \<and> length r1 < length s) \<and>
       parse_elems (acc @ [w]) (skip_ws r2) = Some (v, r)"
    using parse_elems_Some [OF "2.prems"] by blast
  have "length r2 < length r1" "length r1 < length s"
    using skip_ws_Cons [OF c] "2.IH"(1) [OF w] by auto
  with cont "2.IH"(2) [OF w refl c] skip_ws_length [of r2] show ?case by fastforce
next
  case (3 d s)
  obtain q t k r0 r1 w r2 c r3 where s: "s = q # t" "ord q = 34" and k: "scan_string t = Some (k, r0)"
    and r1: "skip_ws r0 = CHR '':'' # r1" and w: "parse_value (skip_ws r1) = Some (w, r2)" and c: "skip_ws r2 = c # r3"
    and cont: "c = CHR ''}'' \<and> r = r3 \<or> c \<noteq> CHR ''}'' \<and> (c = CHR '','' \<and> length r2 < length s) \<and>
       parse_members (AList.update k w d) (skip_ws r3) = Some (v, r)"
    using parse_members_Some [OF "3.prems"] by blast
  have q: "\<not> ord q \<noteq> 34" using s(2) by simp
  have "length r2 < length (skip_ws r1)" using "3.IH"(1) [OF s(1) q k refl r1 _ w] by simp
  moreover have "length s = Suc (length t)" using s(1) by simp
  ultimately have "length r3 < length r2" "length r2 < length s"
    using skip_ws_Cons [OF c] skip_ws_Cons [OF r1] skip_ws_length [of r1] scan_string_length [OF k] by linarith+
  with cont "3.IH"(2) [OF s(1) q k refl r1 _ w refl c] skip_ws_length [of r3] show ?case by fastforce
qed

text \<open>\<open>json.loads(text)\<close>: one value, nothing after it.\<close>

definition loads :: "string \<Rightarrow> json result" where
  "loads s =
     (case parse_value (skip_ws s) of
        Some (v, r) \<Rightarrow> if skip_ws r = [] then Inr v else Inl ValueError
      | None \<Rightarrow> Inl ValueError)"

section \<open>Reading what \<open>dumps\<close> writes\<close>

lemma hex_val_digit: "d < 16 \<Longrightarrow> hex_val (hex_digit d) = Some d"
proof -
  assume d: "d < 16"
  show ?thesis
  proof (cases "d < 10")
    case True
    then show ?thesis
      by (simp add: hex_val_def hex_digit_def ord_digit_char is_decimal_def)
  next
    case False
    with d have "ord (char_of (87 + d)) = 87 + d" by (intro ord_char_of) simp
    with d False show ?thesis
      by (simp add: hex_val_def hex_digit_def is_decimal_def)
  qed
qed

lemma char_of_ord [simp]: "char_of (ord c) = c"
  by (simp add: ord_def)

lemma ord_eqI: "ord c = n \<Longrightarrow> c = char_of n"
  by (metis char_of_ord)

lemma scan_esc_char:
  "scan_string (esc_char c @ t) = consume c (scan_string t)"
proof -
  have un: "short_unescape (CHR 0x22) = Some (CHR 0x22)" "short_unescape (CHR 0x5C) = Some (CHR 0x5C)"
    "short_unescape (CHR ''n'') = Some (CHR 0x0A)" "short_unescape (CHR ''r'') = Some (CHR 0x0D)"
    "short_unescape (CHR ''t'') = Some (CHR 0x09)" "short_unescape (CHR ''f'') = Some (CHR 0x0C)"
    "short_unescape (CHR ''b'') = Some (CHR 0x08)"
    by code_simp+
  have ords: "ord c = 34 \<longleftrightarrow> c = CHR 0x22" "ord c = 92 \<longleftrightarrow> c = CHR 0x5C" "ord c = 10 \<longleftrightarrow> c = CHR 0x0A"
    "ord c = 13 \<longleftrightarrow> c = CHR 0x0D" "ord c = 9 \<longleftrightarrow> c = CHR 0x09" "ord c = 12 \<longleftrightarrow> c = CHR 0x0C"
    "ord c = 8 \<longleftrightarrow> c = CHR 0x08" for c
    by (simp_all only: ord_inject [symmetric]) code_simp+
  consider "ord c = 34" | "ord c = 92" | "ord c = 10" | "ord c = 13" | "ord c = 9" | "ord c = 12" | "ord c = 8"
    | "ord c \<notin> {34, 92, 10, 13, 9, 12, 8}" "32 \<le> ord c \<and> ord c \<le> 126"
    | "ord c \<notin> {34, 92, 10, 13, 9, 12, 8}" "\<not> (32 \<le> ord c \<and> ord c \<le> 126)"
    by blast
  then show ?thesis
  proof cases
    case 9
    have "hex4 (CHR ''0'') (CHR ''0'') (hex_digit (ord c div 16)) (hex_digit (ord c mod 16)) = Some (ord c)"
    proof -
      have "hex_val (CHR ''0'') = Some 0" by code_simp
      moreover have "ord c div 16 < 16" using ord_less [of c] by arith
      ultimately show ?thesis by (simp add: hex4_def hex_val_digit)
    qed
    with 9 show ?thesis using ord_less [of c] by (simp add: esc_char_def)
  next
    case 8
    then show ?thesis by (simp add: esc_char_def)
  qed (simp_all add: esc_char_def ords un)
qed

lemma consume_Some [simp]: "consume c (Some (w, t)) = Some (c # w, t)"
  by (simp add: consume_def)

lemma scan_dumps: "scan_string (concat (map esc_char w) @ CHR 0x22 # t) = Some (w, t)"
  by (induction w) (simp_all add: scan_esc_char)

text \<open>Integers, before a separator, a bracket or the end.\<close>

lemma stop_chars:
  "json_stop s \<Longrightarrow> s = [] \<or> (\<not> is_decimal (hd s) \<and> hd s \<noteq> CHR ''.'' \<and> hd s \<noteq> CHR ''e'' \<and> hd s \<noteq> CHR ''E'')"
proof -
  have "\<not> is_decimal (CHR '','')" "\<not> is_decimal (CHR ''}'')" "\<not> is_decimal (CHR '']'')" by code_simp+
  then show "json_stop s \<Longrightarrow> s = [] \<or> (\<not> is_decimal (hd s) \<and> hd s \<noteq> CHR ''.'' \<and> hd s \<noteq> CHR ''e'' \<and> hd s \<noteq> CHR ''E'')"
    by (auto simp: json_stop_def)
qed

lemma scan_digits_run: "list_all is_decimal w \<Longrightarrow> s = [] \<or> \<not> is_decimal (hd s) \<Longrightarrow> scan_digits (w @ s) = (w, s)"
  by (cases s) (auto simp: scan_digits_def list_all_iff takeWhile_append2 dropWhile_append2)

lemma show_nat_zero: "hd (show_nat n) = CHR ''0'' \<longleftrightarrow> n = 0"
proof (induction n rule: show_nat.induct)
  case (1 n)
  show ?case
  proof (cases "n < 10")
    case True
    have "digit_val (CHR ''0'') = 0" "digit_char 0 = CHR ''0''" by code_simp+
    then have "digit_char n = CHR ''0'' \<longleftrightarrow> n = 0"
      using digit_val_char [OF True] by metis
    with True show ?thesis by (simp add: show_nat.simps [of n])
  next
    case False
    then have "n div 10 \<noteq> 0" by auto
    with False 1 show ?thesis by (simp add: show_nat.simps [of n])
  qed
qed

lemma show_nat_0: "show_nat 0 = ''0''"
  by code_simp

lemma scan_int_nat:
  assumes "s = [] \<or> \<not> is_decimal (hd s)"
  shows "scan_int (show_nat n @ s) = Some (show_nat n, s)"
proof -
  obtain c w where cw: "show_nat n = c # w" by (cases "show_nat n") auto
  have dec: "is_decimal c" "list_all is_decimal w"
    using show_nat_decimal [of n] cw by simp_all
  have minus: "c \<noteq> CHR ''-''" using dec(1) by (auto simp: is_decimal_def ord_def)
  show ?thesis
  proof (cases "n = 0")
    case True
    then show ?thesis by (simp add: show_nat_0 scan_int_def)
  next
    case False
    then have "c \<noteq> CHR ''0''" using show_nat_zero [of n] cw by simp
    then show ?thesis
      using scan_digits_run [of "c # w" s] assms dec minus by (simp add: cw scan_int_def)
  qed
qed

lemma scan_int_show:
  assumes "s = [] \<or> \<not> is_decimal (hd s)"
  shows "scan_int (show_int i @ s) = Some (show_int i, s)"
proof (cases "i < 0")
  case True
  obtain c w where cw: "show_nat (nat (- i)) = c # w" by (cases "show_nat (nat (- i))") auto
  have "is_decimal c" using show_nat_decimal [of "nat (- i)"] cw by simp
  then have "c \<noteq> CHR ''-''" by (auto simp: is_decimal_def ord_def)
  then show ?thesis
    using True scan_int_nat [OF assms, of "nat (- i)"] cw
    by (auto simp: show_int_def scan_int_def split: if_splits)
next
  case False
  then show ?thesis
    using scan_int_nat [OF assms, of "nat i"] by (simp add: show_int_def)
qed

lemma read_int_show: "read_int (show_int i) = i \<and> within_limit (int_digits (show_int i)) = small_int i"
proof (cases "i < 0")
  case False
  obtain c w where cw: "show_nat (nat i) = c # w" by (cases "show_nat (nat i)") auto
  have "is_decimal c" using show_nat_decimal [of "nat i"] cw by simp
  then have "c \<noteq> CHR ''-''" by (auto simp: is_decimal_def ord_def)
  with False cw show ?thesis
    using nat_of_digits_show [of "nat i"]
    by (simp add: show_int_def read_int_def int_digits_def small_int_def)
qed (simp add: show_int_def read_int_def int_digits_def small_int_def)

lemma scan_number_show:
  assumes "json_stop s" "small_int i"
  shows "scan_number (show_int i @ s) = Some (JInt i, s)"
proof -
  have "scan_int (show_int i @ s) = Some (show_int i, s)"
    by (rule scan_int_show) (use stop_chars [OF assms(1)] in blast)
  moreover have "scan_frac s = ([], s)" "scan_exp s = ([], s)"
    using stop_chars [OF assms(1)] by (auto simp: scan_frac_def scan_exp_def split: list.split)
  ultimately show ?thesis using assms(2) by (simp add: scan_number_def read_int_show)
qed

lemma starts_with_number: "c \<notin> {CHR ''n'', CHR ''t'', CHR ''f''} \<Longrightarrow>
    \<not> starts_with (c # w) ''null'' \<and> \<not> starts_with (c # w) ''true'' \<and> \<not> starts_with (c # w) ''false''"
  by (auto simp: starts_with_def)

lemma scan_word_show:
  assumes "json_stop s" "small_int i"
  shows "scan_word (show_int i @ s) = Some (JInt i, s)"
proof -
  obtain c w where cw: "show_int i = c # w"
    using show_int_num(2) [of i] by (cases "show_int i") auto
  have "num_char c" using show_int_num(1) [of i] cw by simp
  moreover have "\<not> num_char (CHR ''n'')" "\<not> num_char (CHR ''t'')" "\<not> num_char (CHR ''f'')" by code_simp+
  ultimately have "c \<notin> {CHR ''n'', CHR ''t'', CHR ''f''}" by auto
  then show ?thesis
    using starts_with_number [of c "w @ s"] scan_number_show [OF assms] cw
    by (simp add: scan_word_def)
qed

text \<open>The values the round trip is about: no floats, integers within the limit, and the objects are
  dictionaries.\<close>

fun json_plain :: "json \<Rightarrow> bool" where
  "json_plain (JFloat r) = False"
| "json_plain (JInt i) = small_int i"
| "json_plain (JList vs) = list_all json_plain vs"
| "json_plain (JObj kvs) = (is_dict kvs \<and> list_all (\<lambda>(k, v). json_plain v) kvs)"
| "json_plain _ = True"

text \<open>The separators of \<open>dumps\<close>: a comma or a colon, then blanks.\<close>

definition sep_ok :: "char \<Rightarrow> string \<Rightarrow> bool" where
  "sep_ok c sep \<longleftrightarrow> sep \<noteq> [] \<and> hd sep = c \<and> list_all json_ws (tl sep)"

lemma skip_ws_run: "list_all json_ws w \<Longrightarrow> skip_ws (w @ s) = skip_ws s"
  by (simp add: skip_ws_def list_all_iff dropWhile_append2)

lemma skip_ws_head: "\<not> json_ws c \<Longrightarrow> skip_ws (c # s) = c # s"
  by (simp add: skip_ws_def)

lemma json_not_ws [simp]:
  "\<not> json_ws (CHR '','')" "\<not> json_ws (CHR '':'')" "\<not> json_ws (CHR '']'')" "\<not> json_ws (CHR ''}'')"
  "\<not> json_ws (CHR ''['')" "\<not> json_ws (CHR ''{'')" "\<not> json_ws (CHR 0x22)"
  by code_simp+

lemma dumps_hd:
  assumes "json_plain v"
  shows "\<exists>c w. dumps isep ksep v = c # w \<and> \<not> json_ws c \<and> c \<noteq> CHR '']''"
proof (cases v)
  case (JInt i)
  obtain c w where cw: "show_int i = c # w"
    using show_int_num(2) [of i] by (cases "show_int i") auto
  have n: "num_char c" using show_int_num(1) [of i] cw by simp
  have "\<not> num_char (CHR '']'')" by code_simp
  moreover have "num_char c \<Longrightarrow> \<not> json_ws c" for c
    by (auto simp: num_char_def json_ws_def is_decimal_def ord_def)
  ultimately show ?thesis using JInt cw n by auto
next
  case (JBool b)
  have "\<not> json_ws (CHR ''t'')" "\<not> json_ws (CHR ''f'')" by code_simp+
  with JBool show ?thesis by (cases b) auto
next
  case JNull
  have "\<not> json_ws (CHR ''n'')" by code_simp
  with JNull show ?thesis by simp
qed (use assms in \<open>auto simp: dumps_str_def\<close>)

text \<open>An array after its bracket, an object after its brace.\<close>

lemma sep_split: "sep_ok c sep \<Longrightarrow> \<exists>w. sep = c # w \<and> list_all json_ws w"
  by (cases sep) (auto simp: sep_ok_def)

lemma elems_dumps:
  assumes sep: "sep_ok (CHR '','') isep"
    and vals: "\<And>x r. x \<in> set xs \<Longrightarrow> json_stop r \<Longrightarrow> parse_value (dumps isep ksep x @ r) = Some (x, r)"
    and plain: "list_all json_plain xs" and ne: "xs \<noteq> []"
  shows "parse_elems acc (join isep (map (dumps isep ksep) xs) @ CHR '']'' # s) = Some (JList (acc @ xs), s)"
  using vals plain ne
proof (induction xs arbitrary: acc)
  case (Cons x xs)
  obtain w where w: "isep = CHR '','' # w" "list_all json_ws w"
    using sep_split [OF sep] by blast
  obtain c d where x: "dumps isep ksep x = c # d"
    using dumps_hd [of x isep ksep] Cons.prems(2) by auto
  show ?case
  proof (cases "xs = []")
    case True
    then show ?thesis
      using Cons.prems(1) [of x "CHR '']'' # s"] by (simp add: parse_elems.simps [of acc] skip_ws_head)
  next
    case False
    define rest where "rest = join isep (map (dumps isep ksep) xs) @ CHR '']'' # s"
    obtain y ys where ys: "xs = y # ys" using False by (cases xs) auto
    then obtain c' d' where "rest = c' # d'" "\<not> json_ws c'"
      using dumps_hd [of y isep ksep] Cons.prems(2) by (cases ys) (auto simp: rest_def)
    then have ws: "skip_ws (w @ rest) = rest"
      using w(2) by (simp add: skip_ws_run skip_ws_head)
    have "parse_value (dumps isep ksep x @ isep @ rest) = Some (x, isep @ rest)"
      by (rule Cons.prems(1)) (simp_all add: w)
    moreover have "parse_elems (acc @ [x]) rest = Some (JList ((acc @ [x]) @ xs), s)"
      unfolding rest_def by (rule Cons.IH) (use Cons.prems False in auto)
    moreover have "dumps (CHR '','' # w) ksep x \<noteq> []"
      using x w(1) by simp
    ultimately have "parse_elems acc (dumps isep ksep x @ isep @ rest) = Some (JList (acc @ x # xs), s)"
      by (simp add: parse_elems.simps [of acc] x w(1) skip_ws_head ws)
    with False show ?thesis by (simp add: join_Cons rest_def)
  qed
qed simp

lemma update_fresh: "k \<notin> set (dict_keys d) \<Longrightarrow> AList.update k v d = d @ [(k, v)]"
  by (induction d) auto

lemma members_dumps:
  assumes seps: "sep_ok (CHR '','') isep" "sep_ok (CHR '':'') ksep"
    and vals: "\<And>k x r. (k, x) \<in> set kvs \<Longrightarrow> json_stop r \<Longrightarrow> parse_value (dumps isep ksep x @ r) = Some (x, r)"
    and plain: "list_all (\<lambda>(k, v). json_plain v) kvs" and ne: "kvs \<noteq> []" and dict: "is_dict (acc @ kvs)"
  shows "parse_members acc (join isep (map (\<lambda>(k, v). dumps_str k @ ksep @ dumps isep ksep v) kvs) @ CHR ''}'' # s) =
    Some (JObj (acc @ kvs), s)"
  using vals plain ne dict
proof (induction kvs arbitrary: acc)
  case (Cons kv kvs)
  let ?m = "\<lambda>(k, v). dumps_str k @ ksep @ dumps isep ksep v"
  obtain k x where kv: "kv = (k, x)" by (cases kv)
  obtain w where w: "isep = CHR '','' # w" "list_all json_ws w"
    using sep_split [OF seps(1)] by blast
  obtain kw where kw: "ksep = CHR '':'' # kw" "list_all json_ws kw"
    using sep_split [OF seps(2)] by blast
  obtain c d where x: "dumps isep ksep x = c # d" "\<not> json_ws c"
    using dumps_hd [of x isep ksep] Cons.prems(2) kv by auto
  have upd: "AList.update k x acc = acc @ [(k, x)]"
    using Cons.prems(4) kv by (intro update_fresh) (auto simp: is_dict_def)
  have q: "ord (CHR 0x22) = 34" by code_simp
  have head: "parse_members acc (dumps_str k @ ksep @ dumps isep ksep x @ r # t) =
      (if r = CHR ''}'' then Some (JObj (acc @ [(k, x)]), t)
       else if r = CHR '','' then parse_members (acc @ [(k, x)]) (skip_ws t) else None)"
    if r: "json_stop (r # t)" "\<not> json_ws r" for r t
  proof -
    have pv: "parse_value (dumps isep ksep x @ r # t) = Some (x, r # t)"
      using Cons.prems(1) r(1) kv by auto
    have ws: "skip_ws (kw @ dumps isep ksep x @ r # t) = dumps isep ksep x @ r # t"
      using kw(2) x by (simp add: skip_ws_run skip_ws_head)
    show ?thesis
      using pv ws r(2) x(1)
      by (simp add: parse_members.simps [of acc] dumps_str_def q scan_dumps kw(1) skip_ws_head upd)
  qed
  show ?case
  proof (cases "kvs = []")
    case True
    then show ?thesis using head [of "CHR ''}''" s] kv by simp
  next
    case False
    define rest where "rest = join isep (map ?m kvs) @ CHR ''}'' # s"
    obtain d' where "rest = CHR 0x22 # d'"
      using False by (cases kvs; cases "tl kvs") (auto simp: rest_def dumps_str_def)
    then have "skip_ws (w @ rest) = rest"
      using w(2) by (simp add: skip_ws_run skip_ws_head)
    moreover have "parse_members (acc @ [(k, x)]) rest = Some (JObj ((acc @ [(k, x)]) @ kvs), s)"
      unfolding rest_def by (rule Cons.IH) (use Cons.prems False kv in auto)
    ultimately have "parse_members acc (dumps_str k @ ksep @ dumps isep ksep x @ isep @ rest) =
        Some (JObj (acc @ (k, x) # kvs), s)"
      using head [of "CHR '',''" "w @ rest"] w(1) by simp
    with False kv show ?thesis by (simp add: join_Cons rest_def)
  qed
qed simp

lemma value_dumps:
  assumes seps: "sep_ok (CHR '','') isep" "sep_ok (CHR '':'') ksep"
  shows "json_plain v \<Longrightarrow> json_stop s \<Longrightarrow> parse_value (dumps isep ksep v @ s) = Some (v, s)"
proof (induction v arbitrary: s)
  case (JInt i)
  obtain c w where cw: "show_int i = c # w"
    using show_int_num(2) [of i] by (cases "show_int i") auto
  have "num_char c" using show_int_num(1) [of i] cw by simp
  then have "ord c \<noteq> 34" "c \<noteq> CHR ''[''" "c \<noteq> CHR ''{''"
    by (auto simp: num_char_def is_decimal_def ord_def)
  with cw scan_word_show [OF JInt.prems(2), of i] JInt.prems(1) show ?case
    by (simp add: parse_value.simps)
next
  case (JStr w)
  have "ord (CHR 0x22) = 34" by code_simp
  then show ?case by (simp add: parse_value.simps dumps_str_def scan_dumps)
next
  case (JList vs)
  have br: "ord (CHR ''['') \<noteq> 34" by code_simp
  show ?case
  proof (cases "vs = []")
    case True
    then show ?thesis using br by (simp add: parse_value.simps skip_ws_head starts_with_def)
  next
    case False
    define body where "body = join isep (map (dumps isep ksep) vs) @ CHR '']'' # s"
    have elems: "parse_elems [] body = Some (JList ([] @ vs), s)"
      unfolding body_def
      by (rule elems_dumps [OF seps(1)]) (use JList False in \<open>auto simp: list_all_iff\<close>)
    obtain v vs' where vs: "vs = v # vs'" using False by (cases vs) auto
    obtain c d where c: "body = c # d" "\<not> json_ws c" "c \<noteq> CHR '']''"
      using dumps_hd [of v isep ksep] JList.prems(1) vs by (cases vs') (auto simp: body_def)
    have "parse_value (CHR ''['' # body) = Some (JList vs, s)"
      using elems c br by (simp add: parse_value.simps skip_ws_head starts_with_def)
    then show ?thesis by (simp add: body_def)
  qed
next
  case (JObj kvs)
  have br: "ord (CHR ''{'') \<noteq> 34" by code_simp
  show ?case
  proof (cases "kvs = []")
    case True
    then show ?thesis using br by (simp add: parse_value.simps skip_ws_head starts_with_def)
  next
    case False
    let ?m = "\<lambda>(k, v). dumps_str k @ ksep @ dumps isep ksep v"
    define body where "body = join isep (map ?m kvs) @ CHR ''}'' # s"
    have mem: "parse_members [] body = Some (JObj ([] @ kvs), s)"
      unfolding body_def
      by (rule members_dumps [OF seps]) (use JObj False in \<open>auto simp: list_all_iff\<close>)
    obtain d where d: "body = CHR 0x22 # d"
      using False by (cases kvs; cases "tl kvs") (auto simp: body_def dumps_str_def)
    have "parse_value (CHR ''{'' # body) = Some (JObj kvs, s)"
      using mem d br by (simp add: parse_value.simps skip_ws_head starts_with_def)
    then show ?thesis by (simp add: body_def)
  qed
next
  case JNull
  have "ord (CHR ''n'') \<noteq> 34" by code_simp
  then show ?case by (simp add: parse_value.simps scan_word_def starts_with_def)
next
  case (JBool b)
  have "ord (CHR ''t'') \<noteq> 34" "ord (CHR ''f'') \<noteq> 34" by code_simp+
  then show ?case by (simp add: parse_value.simps scan_word_def starts_with_def)
qed simp

lemma loads_dumps:
  assumes "sep_ok (CHR '','') isep" "sep_ok (CHR '':'') ksep" "json_plain v"
  shows "loads (dumps isep ksep v) = Inr v"
proof -
  obtain c w where cw: "dumps isep ksep v = c # w" "\<not> json_ws c"
    using dumps_hd [OF assms(3), of isep ksep] by blast
  have "skip_ws (dumps isep ksep v) = dumps isep ksep v"
    using cw by (simp add: skip_ws_head)
  moreover have "skip_ws [] = []" by (simp add: skip_ws_def)
  ultimately show ?thesis
    using value_dumps [OF assms, of "[]"] by (simp add: loads_def)
qed

end
