(* ===== verification/Liorm_Embed.thy ===== *)
theory Liorm_Embed
  imports Py_Regex Py_Json_Loads
begin

text \<open>
  \<open>liorm/embed_engine.py\<close>: the bridge to the native engine, a program that is run as a
  subprocess. The operating system (environment, files, subprocesses) is the record \<open>os\<close> of
  functions on a state \<open>'w\<close>, a parameter of the model; the engine behind \<open>os_run\<close> is not
  Python, and \<open>os_run\<close> is a run that could be started (its \<open>OSError\<close> is in \<open>Embed_Session\<close> only). A \<open>Path\<close> is its text. What the code keeps itself, the module's globals, is the
  record \<open>embed_state\<close>.
\<close>

section \<open>Values and the operating system\<close>

text \<open>The parameter values a caller may pass, and \<open>str\<close> on them; a float is its \<open>repr\<close>, and an
  integer is one that \<open>str\<close> accepts (\<open>small_int\<close>).\<close>

datatype pyval = PNone | PBool bool | PInt int | PFloat string | PStr string

fun py_str :: "pyval \<Rightarrow> string" where
  "py_str PNone = ''None''"
| "py_str (PBool b) = (if b then ''True'' else ''False'')"
| "py_str (PInt i) = show_int i"
| "py_str (PFloat r) = r"
| "py_str (PStr s) = s"

type_synonym row = "(string, json) dict"

record proc =
  returncode :: int
  stdout :: string
  stderr :: string

record 'w os =
  os_root :: string
  os_getenv :: "string \<Rightarrow> 'w \<Rightarrow> string option"
  os_is_file :: "string \<Rightarrow> 'w \<Rightarrow> bool"
  os_size :: "string \<Rightarrow> 'w \<Rightarrow> nat"
  os_which :: "string \<Rightarrow> 'w \<Rightarrow> bool"
  os_mkdir :: "string \<Rightarrow> 'w \<Rightarrow> 'w"
  os_run :: "string list \<Rightarrow> string option \<Rightarrow> 'w \<Rightarrow> proc \<times> 'w"
  os_mkdtemp :: "'w \<Rightarrow> string \<times> 'w"
  os_rmtree :: "string \<Rightarrow> 'w \<Rightarrow> 'w"

text \<open>\<open>os.environ.get(name)\<close> where the empty text counts as absent.\<close>

definition env_value :: "'w os \<Rightarrow> string \<Rightarrow> 'w \<Rightarrow> string option" where
  "env_value os name w = (case os_getenv os name w of None \<Rightarrow> None | Some v \<Rightarrow> if v = [] then None else Some v)"

section \<open>The engine binary\<close>

definition embed_binary :: "'w os \<Rightarrow> 'w \<Rightarrow> string option" where
  "embed_binary os w =
     (let candidates = find (\<lambda>p. os_is_file os p w)
            [os_root os @ ''/build/smoke/lidb_embed'', os_root os @ ''/build/lidb_embed''] in
      (case env_value os ''LIDB_EMBED'' w of
         None \<Rightarrow> candidates
       | Some path \<Rightarrow> if os_is_file os path w then Some path else candidates))"

definition build_embed :: "'w os \<Rightarrow> 'w \<Rightarrow> string option \<times> 'w" where
  "build_embed os w =
     (if \<not> os_which os ''cmake'' w then (None, w)
      else
        let build_dir = os_root os @ ''/build/smoke'';
            w1 = os_mkdir os build_dir w;
            w2 = snd (os_run os [''cmake'', ''-S'', os_root os, ''-B'', build_dir, ''-DCMAKE_BUILD_TYPE=Release''] None w1);
            w3 = snd (os_run os [''cmake'', ''--build'', build_dir, ''--target'', ''lidb_embed'', ''-j''] None w2)
        in (embed_binary os w3, w3))"

definition heap_catalog_path :: "string \<Rightarrow> string" where
  "heap_catalog_path data_dir = data_dir @ ''/.lidb/catalog.heap''"

definition run_embed :: "'w os \<Rightarrow> string list \<Rightarrow> string option \<Rightarrow> 'w \<Rightarrow> proc \<times> 'w" where
  "run_embed os args stdin w =
     (let (embed, w1) = (case embed_binary os w of Some b \<Rightarrow> (Some b, w) | None \<Rightarrow> build_embed os w) in
      (case embed of
         None \<Rightarrow> (\<lparr>returncode = 127, stdout = [], stderr = ''lidb_embed missing''\<rparr>, w1)
       | Some b \<Rightarrow> os_run os (b # args) stdin w1))"

section \<open>Flattening SQL\<close>

text \<open>
  \<open>"[^"]+"\."([^"]+)"\."([^"]+)"\<close> becomes its second group, \<open>"[^"]+"\."([^"]+)"\<close> its first,
  \<open>\$(\d+)\<close> a question mark.
\<close>

definition dq :: char where
  "dq = CHR 0x22"

definition quoted_name :: re_pat where
  "quoted_name = [One (\<lambda>c. c = dq), Plus (\<lambda>c. c \<noteq> dq), One (\<lambda>c. c = dq)]"

definition TRIPLE_RE :: re_pat where
  "TRIPLE_RE = quoted_name @ lit ''.'' @ quoted_name @ lit ''.'' @ quoted_name"

definition DOUBLE_RE :: re_pat where
  "DOUBLE_RE = quoted_name @ lit ''.'' @ quoted_name"

definition PARAM_RE :: re_pat where
  "PARAM_RE = lit ''$'' @ [Plus is_decimal]"

definition flatten_sql :: "string \<Rightarrow> string" where
  "flatten_sql pg_sql =
     re_sub PARAM_RE (\<lambda>_. ''?'')
       (re_sub DOUBLE_RE (\<lambda>gs. gs ! 5)
         (re_sub TRIPLE_RE (\<lambda>gs. gs ! 9) pg_sql))"

section \<open>A session\<close>

definition open_and_migrate :: "'w os \<Rightarrow> string \<Rightarrow> 'w \<Rightarrow> bool \<times> 'w" where
  "open_and_migrate os data_dir w =
     (let (p, w1) = run_embed os [''open'', data_dir] None w in
      if returncode p \<noteq> 0 then (False, w1)
      else let (p', w2) = run_embed os [''migrate'', data_dir] None w1 in
        if returncode p' \<noteq> 0 then (False, w2)
        else let catalog = heap_catalog_path data_dir in
          (os_is_file os catalog w2 \<and> 0 < os_size os catalog w2, w2))"

text \<open>
  \<open>dict(row)\<close>: of an object, itself; of another iterable, its elements taken as pairs. An element
  is a sequence of two: a list, a text of two characters, or an object of two keys. A key has to be
  hashable. A row is what the dictionary holds under keys that are texts; no code reads others.
\<close>

fun row_pair :: "json \<Rightarrow> (json \<times> json) result" where
  "row_pair (JList vs) = (case vs of [k, v] \<Rightarrow> Inr (k, v) | _ \<Rightarrow> Inl ValueError)"
| "row_pair (JStr s) = (case s of [a, b] \<Rightarrow> Inr (JStr [a], JStr [b]) | _ \<Rightarrow> Inl ValueError)"
| "row_pair (JObj d) = (case d of [(a, _), (b, _)] \<Rightarrow> Inr (JStr a, JStr b) | _ \<Rightarrow> Inl ValueError)"
| "row_pair _ = Inl TypeError"

fun row_set :: "json \<Rightarrow> json \<Rightarrow> row \<Rightarrow> row result" where
  "row_set (JStr k) v d = Inr (AList.update k v d)"
| "row_set (JList _) v d = Inl TypeError"
| "row_set (JObj _) v d = Inl TypeError"
| "row_set _ v d = Inr d"

fun row_fill :: "json list \<Rightarrow> row \<Rightarrow> row result" where
  "row_fill [] d = Inr d"
| "row_fill (e # es) d = ebind (row_pair e) (\<lambda>(k, v). ebind (row_set k v d) (row_fill es))"

fun row_of :: "json \<Rightarrow> row result" where
  "row_of (JObj d) = Inr d"
| "row_of (JList vs) = row_fill vs []"
| "row_of (JStr s) = row_fill (map (\<lambda>c. JStr [c]) s) []"
| "row_of _ = Inl TypeError"

text \<open>
  \<open>[dict(row) for row in v.get("rows", [])]\<close>: only a JSON object has \<open>get\<close>; a text is iterated by
  characters and an object by keys.
\<close>

fun rows_of :: "json \<Rightarrow> row list result" where
  "rows_of (JObj d) =
     (case map_of d ''rows'' of
        None \<Rightarrow> Inr []
      | Some (JList vs) \<Rightarrow> emap row_of vs
      | Some (JObj kvs) \<Rightarrow> emap (\<lambda>(k, v). row_of (JStr k)) kvs
      | Some (JStr s) \<Rightarrow> emap (\<lambda>c. row_of (JStr [c])) s
      | Some _ \<Rightarrow> Inl TypeError)"
| "rows_of _ = Inl AttributeError"

definition stdin_of :: "pyval list \<Rightarrow> string" where
  "stdin_of params = dumps '', '' '': '' (JList (map (\<lambda>p. JStr (py_str p)) params))"

definition exec_parameterized ::
  "'w os \<Rightarrow> string \<Rightarrow> string \<Rightarrow> pyval list \<Rightarrow> 'w \<Rightarrow> row list result \<times> 'w" where
  "exec_parameterized os data_dir sql params w =
     (let flat = flatten_sql sql;
          (p, w1) = run_embed os [''exec-json'', data_dir, flat] (Some (stdin_of params)) w in
      if returncode p \<noteq> 0 then (Inl RuntimeError, w1)
      else (ebind (loads (if stdout p = [] then ''{}'' else stdout p)) rows_of, w1))"

section \<open>The module's state\<close>

record 'w embed_state =
  session :: "string option"
  session_dir :: "string option"
  ready :: "bool option"
  world :: 'w

definition default_data_dir :: "'w os \<Rightarrow> 'w embed_state \<Rightarrow> string \<times> 'w embed_state" where
  "default_data_dir os st =
     (case env_value os ''LIDB_DATA_DIR'' (world st) of
        Some d \<Rightarrow> (d, st)
      | None \<Rightarrow>
          (case session_dir st of
             Some d \<Rightarrow> (d, st)
           | None \<Rightarrow> let (d, w) = os_mkdtemp os (world st) in (d, st\<lparr>session_dir := Some d, world := w\<rparr>)))"

text \<open>The part of \<open>ensure_session\<close> under the lock; a session is its data directory.\<close>

definition init_session :: "'w os \<Rightarrow> 'w embed_state \<Rightarrow> string option \<times> 'w embed_state" where
  "init_session os st =
     (case session st of
        Some s \<Rightarrow> (Some s, st)
      | None \<Rightarrow>
          if ready st = Some False then (None, st)
          else
            let (d, st1) = default_data_dir os st;
                (ok, w) = open_and_migrate os d (world st1);
                st2 = st1\<lparr>world := w\<rparr> in
            if \<not> ok then (None, st2\<lparr>ready := Some False, session := None\<rparr>)
            else (Some d, st2\<lparr>session := Some d, ready := Some True\<rparr>))"

definition ensure_session :: "'w os \<Rightarrow> 'w embed_state \<Rightarrow> string option \<times> 'w embed_state" where
  "ensure_session os st =
     (if ready st = Some False then (None, st)
      else case session st of Some s \<Rightarrow> (Some s, st) | None \<Rightarrow> init_session os st)"

definition engine_ready :: "'w os \<Rightarrow> 'w embed_state \<Rightarrow> bool \<times> 'w embed_state" where
  "engine_ready os st = (let (s, st1) = ensure_session os st in (s \<noteq> None, st1))"

text \<open>A call of the session's method on the module's state.\<close>

definition session_exec ::
  "'w os \<Rightarrow> string \<Rightarrow> string \<Rightarrow> pyval list \<Rightarrow> 'w embed_state \<Rightarrow> row list result \<times> 'w embed_state" where
  "session_exec os s sql params st =
     (let (r, w) = exec_parameterized os s sql params (world st) in (r, st\<lparr>world := w\<rparr>))"

definition probe_engine_ready :: "'w os \<Rightarrow> 'w embed_state \<Rightarrow> bool \<times> 'w embed_state" where
  "probe_engine_ready os st =
     (let (s, st1) = ensure_session os st in
      (case s of
         None \<Rightarrow> (False, st1)
       | Some d \<Rightarrow>
           let (r, st2) = session_exec os d ''SELECT 1 AS ok'' [] st1 in
           (case r of
              Inr (row # _) \<Rightarrow> (map_of row ''ok'' = Some (JStr ''1''), st2)
            | _ \<Rightarrow> (False, st2))))"

definition execute_sql ::
  "'w os \<Rightarrow> string \<Rightarrow> pyval list \<Rightarrow> 'w embed_state \<Rightarrow> row list result \<times> 'w embed_state" where
  "execute_sql os sql params st =
     (let (s, st1) = ensure_session os st in
      (case s of
         None \<Rightarrow> (Inl RuntimeError, st1)
       | Some d \<Rightarrow> session_exec os d sql params st1))"

definition reset_session_for_tests :: "'w os \<Rightarrow> 'w embed_state \<Rightarrow> 'w embed_state" where
  "reset_session_for_tests os st =
     (let st1 = st\<lparr>session := None, ready := None\<rparr> in
      (case session_dir st1 of
         None \<Rightarrow> st1
       | Some d \<Rightarrow> st1\<lparr>session_dir := None, world := os_rmtree os d (world st1)\<rparr>))"

section \<open>Test fixtures\<close>

text \<open>
  \<open>seed_test_fixtures\<close> as actions on the module's state. \<open>to_int\<close> is the conversion \<open>int(x)\<close> of a
  value the engine returns.
\<close>

definition table_count ::
  "'w os \<Rightarrow> (json \<Rightarrow> int result) \<Rightarrow> string \<Rightarrow> string \<Rightarrow> ('w embed_state, int) action" where
  "table_count os to_int s table =
     act_seq (session_exec os s (''SELECT COUNT(*) AS n FROM '' @ table) []) (\<lambda>rows.
       (case rows of
          [] \<Rightarrow> act_ret 0
        | row # _ \<Rightarrow> lift_result (to_int (case map_of row ''n'' of None \<Rightarrow> JInt 0 | Some v \<Rightarrow> v))))"

definition seed_if_empty ::
  "'w os \<Rightarrow> (json \<Rightarrow> int result) \<Rightarrow> string \<Rightarrow> string \<Rightarrow> string \<Rightarrow> pyval list \<Rightarrow> ('w embed_state, unit) action" where
  "seed_if_empty os to_int s table sql params =
     act_seq (table_count os to_int s table) (\<lambda>n.
       if n = 0 then act_seq (session_exec os s sql params) (\<lambda>_. act_ret ()) else act_ret ())"

definition FIXTURE_PUB :: string where
  "FIXTURE_PUB = ''00000000-0000-4000-8000-000000000010''"

definition FIXTURE_PKG :: string where
  "FIXTURE_PKG = ''00000000-0000-4000-8000-000000000020''"

definition seed_session :: "'w os \<Rightarrow> (json \<Rightarrow> int result) \<Rightarrow> string \<Rightarrow> ('w embed_state, unit) action" where
  "seed_session os to_int s =
     act_seq (seed_if_empty os to_int s ''publishers''
       ''INSERT INTO publishers (id, name, public_key) VALUES (?, ?, ?)''
       [PStr FIXTURE_PUB, PStr ''pytest-publisher'', PStr (concat (replicate 32 ''00''))]) (\<lambda>_.
     act_seq (seed_if_empty os to_int s ''agent_runs''
       ''INSERT INTO agent_runs (id, status, publisher_id) VALUES (?, ?, ?)''
       [PStr ''00000000-0000-4000-8000-000000000001'', PStr ''running'', PStr FIXTURE_PUB]) (\<lambda>_.
     act_seq (seed_if_empty os to_int s ''packages''
       ''INSERT INTO packages (id, name, description) VALUES (?, ?, ?)''
       [PStr FIXTURE_PKG, PStr ''li-pytest'', PStr ''liorm test package'']) (\<lambda>_.
     seed_if_empty os to_int s ''package_versions''
       (''INSERT INTO package_versions (id, package_id, version, tree_digest, coverage_pct, publisher_id) '' @
        ''VALUES (?, ?, ?, ?, ?, ?)'')
       [PStr ''00000000-0000-4000-8000-000000000030'', PStr FIXTURE_PKG, PStr ''0.0.1-test'',
        PStr ''sha256:pytest-tree'', PStr ''100.0'', PStr FIXTURE_PUB])))"

definition seed_test_fixtures :: "'w os \<Rightarrow> (json \<Rightarrow> int result) \<Rightarrow> ('w embed_state, unit) action" where
  "seed_test_fixtures os to_int st =
     (let (s, st1) = ensure_session os st in
      (case s of None \<Rightarrow> (Inr (), st1) | Some d \<Rightarrow> seed_session os to_int d st1))"

end
