(* ===== verification/Sql_Flatten.thy ===== *)
theory Sql_Flatten
  imports Sql_Safety Liorm_Embed
begin

text \<open>
  What the native engine receives: \<open>_flatten_sql\<close> of \<open>liorm/embed_engine.py\<close> on the SQL the
  compiler makes. The three substitutions by regular expressions turn the text of a plan into the
  text with bare names and question marks, and nothing else of it changes.
\<close>

section \<open>The pieces of a plan's text\<close>

datatype piece = Txt string | Tab sql_table | Col sql_col | Ph nat

fun pjoin :: "piece list list \<Rightarrow> piece list" where
  "pjoin [] = []"
| "pjoin [p] = p"
| "pjoin (p # ps) = p @ Txt '', '' # pjoin ps"

fun slot_piece :: "slot \<Rightarrow> piece" where
  "slot_piece (Bound n) = Ph n"
| "slot_piece Unbound = Txt ''%s''"

definition cols_pieces :: "sql_col list \<Rightarrow> piece list" where
  "cols_pieces cs = pjoin (map (\<lambda>c. [Col c]) cs)"

definition where_pieces :: "(sql_col \<times> nat) option \<Rightarrow> piece list" where
  "where_pieces w = (case w of None \<Rightarrow> [] | Some (c, n) \<Rightarrow> [Txt '' WHERE '', Col c, Txt '' = '', Ph n])"

definition order_pieces :: "(sql_col \<times> bool) option \<Rightarrow> piece list" where
  "order_pieces od = (case od of None \<Rightarrow> []
     | Some (c, desc) \<Rightarrow> [Txt '' ORDER BY '', Col c, Txt (if desc then '' DESC'' else '' ASC'')])"

definition limit_pieces :: "int option \<Rightarrow> piece list" where
  "limit_pieces l = (case l of None \<Rightarrow> [] | Some n \<Rightarrow> [Txt ('' LIMIT '' @ show_int n)])"

fun pieces :: "sql_plan_ast \<Rightarrow> piece list" where
  "pieces (Select cs t w od l) =
     Txt ''SELECT '' # (if cs = [] then [Txt ''*''] else cols_pieces cs) @ Txt '' FROM '' # Tab t #
     where_pieces (map_option (\<lambda>c. (c, 1)) w) @ order_pieces od @ limit_pieces l"
| "pieces (Insert t vs) =
     [Txt ''INSERT INTO '', Tab t, Txt '' (''] @ cols_pieces (map fst vs) @
     Txt '') VALUES ('' # pjoin (map (\<lambda>v. [slot_piece (snd v)]) vs) @ [Txt '')'']"
| "pieces (Update t vs w ret) =
     [Txt ''UPDATE '', Tab t, Txt '' SET ''] @
     pjoin (map (\<lambda>v. [Col (fst v), Txt '' = '', slot_piece (snd v)]) vs) @ where_pieces w @
     (if ret = [] then [] else Txt '' RETURNING '' # cols_pieces ret)"
| "pieces (Delete t w) =
     [Txt ''DELETE FROM '', Tab t] @ where_pieces (map_option (\<lambda>c. (c, 1)) w)"

text \<open>The text of pieces, given how tables, columns and placeholders are written.\<close>

fun piece_text :: "(sql_table \<Rightarrow> string) \<Rightarrow> (sql_col \<Rightarrow> string) \<Rightarrow> (nat \<Rightarrow> string) \<Rightarrow> piece \<Rightarrow> string" where
  "piece_text tab col ph (Txt w) = w"
| "piece_text tab col ph (Tab t) = tab t"
| "piece_text tab col ph (Col c) = col c"
| "piece_text tab col ph (Ph n) = ph n"

definition ptext :: "(sql_table \<Rightarrow> string) \<Rightarrow> (sql_col \<Rightarrow> string) \<Rightarrow> (nat \<Rightarrow> string) \<Rightarrow> piece list \<Rightarrow> string" where
  "ptext tab col ph ps = concat (map (piece_text tab col ph) ps)"

definition bare_col :: "sql_col \<Rightarrow> string" where
  "bare_col c = snd (snd c)"

text \<open>The text with bare names and question marks.\<close>

definition flat_text :: "sql_plan_ast \<Rightarrow> string" where
  "flat_text q = ptext snd bare_col (\<lambda>_. ''?'') (pieces q)"

lemma ptext_simps [simp]:
  "ptext tab col ph [] = []" "ptext tab col ph (p # ps) = piece_text tab col ph p @ ptext tab col ph ps"
  "ptext tab col ph (ps @ qs) = ptext tab col ph ps @ ptext tab col ph qs"
  by (simp_all add: ptext_def)

lemma ptext_pjoin: "ptext tab col ph (pjoin pss) = join '', '' (map (ptext tab col ph) pss)"
  by (induction pss rule: pjoin.induct) (simp_all add: join_Cons)

lemma slot_piece_text: "piece_text tab col placeholder (slot_piece s) = render_slot s"
  by (cases s) simp_all

lemma render_set_eq: "render_set = (\<lambda>x. render_col (fst x) @ '' = '' @ render_slot (snd x))"
  by (simp add: fun_eq_iff render_set_def)

lemma render_pieces: "render_sql q = ptext render_table render_col placeholder (pieces q)"
  by (cases q)
    (auto simp: cols_pieces_def where_pieces_def order_pieces_def limit_pieces_def ptext_pjoin comp_def
      render_cols_def render_where_def render_order_def render_limit_def render_set_eq slot_piece_text
      split: option.split)

section \<open>Well-formed pieces\<close>

text \<open>A text after a name or a number starts with neither a point nor a digit.\<close>

definition gap :: "string \<Rightarrow> bool" where
  "gap w \<longleftrightarrow> w \<noteq> [] \<and> hd w \<noteq> CHR ''.'' \<and> \<not> is_decimal (hd w)"

fun separated :: "piece list \<Rightarrow> bool" where
  "separated (Txt w # ps) = separated ps"
| "separated (p # Txt w # ps) = (gap w \<and> separated ps)"
| "separated (p # q # ps) = False"
| "separated _ = True"

fun piece_ok :: "piece \<Rightarrow> bool" where
  "piece_ok (Txt w) \<longleftrightarrow> dq \<notin> set w \<and> CHR ''$'' \<notin> set w"
| "piece_ok (Tab t) \<longleftrightarrow> sql_name (fst t) \<and> sql_name (snd t)"
| "piece_ok (Col c) \<longleftrightarrow> col_ok c"
| "piece_ok (Ph n) \<longleftrightarrow> True"

definition starts_gap :: "piece list \<Rightarrow> bool" where
  "starts_gap ps \<longleftrightarrow> (case ps of [] \<Rightarrow> True | Txt w # _ \<Rightarrow> gap w | _ \<Rightarrow> False)"

lemma separated_append: "separated ps \<Longrightarrow> separated qs \<Longrightarrow> starts_gap qs \<Longrightarrow> separated (ps @ qs)"
  by (induction ps rule: separated.induct)
    (simp_all, (cases qs; auto simp: starts_gap_def split: piece.splits)+)

lemma gaps [simp]:
  "gap '', ''" "gap '' FROM ''" "gap '' WHERE ''" "gap '' = ''" "gap '' ORDER BY ''" "gap '' DESC''" "gap '' ASC''"
  "gap '') VALUES (''" "gap '')''" "gap '' SET ''" "gap '' RETURNING ''" "gap '' (''"
  by code_simp+

lemma gap_blank [simp]: "gap (CHR '' '' # w)"
proof -
  have "\<not> is_decimal (CHR '' '')" by code_simp
  then show ?thesis by (simp add: gap_def)
qed

lemma separated_pjoin: "(\<And>ps. ps \<in> set pss \<Longrightarrow> separated ps) \<Longrightarrow> separated (pjoin pss)"
  by (induction pss rule: pjoin.induct) (auto intro!: separated_append simp: starts_gap_def)

lemma starts_gap_simps [simp]:
  "starts_gap []" "starts_gap (Txt w # ps) = gap w" "starts_gap ([] @ ps) = starts_gap ps"
  by (simp_all add: starts_gap_def)

lemma separated_cols: "separated (cols_pieces cs)"
  unfolding cols_pieces_def by (rule separated_pjoin) auto

lemma separated_slots: "separated (pjoin (map (\<lambda>v. [slot_piece (snd v)]) vs))"
proof (rule separated_pjoin)
  fix ps assume "ps \<in> set (map (\<lambda>v. [slot_piece (snd v)]) vs)"
  then obtain v where "ps = [slot_piece (snd v)]" by auto
  then show "separated ps" by (cases "snd v") simp_all
qed

lemma separated_sets: "separated (pjoin (map (\<lambda>v. [Col (fst v), Txt '' = '', slot_piece (snd v)]) vs))"
proof (rule separated_pjoin)
  fix ps assume "ps \<in> set (map (\<lambda>v. [Col (fst v), Txt '' = '', slot_piece (snd v)]) vs)"
  then obtain v where "ps = [Col (fst v), Txt '' = '', slot_piece (snd v)]" by auto
  then show "separated ps" by (cases "snd v") simp_all
qed

lemma separated_parts:
  "separated (where_pieces w) \<and> starts_gap (where_pieces w)"
  "separated (order_pieces od) \<and> starts_gap (order_pieces od)"
  "separated (limit_pieces l) \<and> starts_gap (limit_pieces l)"
  by (auto simp: where_pieces_def order_pieces_def limit_pieces_def split: option.split)

lemma starts_gap_append: "starts_gap ps \<Longrightarrow> starts_gap qs \<Longrightarrow> starts_gap (ps @ qs)"
  by (cases ps) (auto simp: starts_gap_def split: piece.splits)

lemma separated_after_tab: "separated ps \<Longrightarrow> starts_gap ps \<Longrightarrow> separated (Tab t # ps)"
  by (cases ps) (auto simp: starts_gap_def split: piece.splits)

lemma separated_pieces: "separated (pieces q)"
proof (cases q)
  case (Select cs t w od l)
  have "separated (Tab t # where_pieces w' @ order_pieces od @ limit_pieces l)" for w'
    using separated_parts by (intro separated_after_tab separated_append starts_gap_append) auto
  with Select show ?thesis
    using separated_cols by (auto intro!: separated_append)
next
  case (Insert t vs)
  then show ?thesis
    using separated_cols separated_slots by (auto intro!: separated_append)
next
  case (Update t vs w ret)
  then show ?thesis
    using separated_cols separated_sets separated_parts(1) by (auto intro!: separated_append starts_gap_append)
next
  case (Delete t w)
  then show ?thesis
    using separated_parts(1) by (auto intro!: separated_after_tab)
qed

lemma piece_ok_lits [simp]: "piece_ok (Txt '', '')"
  by code_simp

lemma list_all_pjoin: "(\<And>ps. ps \<in> set pss \<Longrightarrow> list_all piece_ok ps) \<Longrightarrow> list_all piece_ok (pjoin pss)"
  by (induction pss rule: pjoin.induct) (auto simp: dq_def)

lemma show_int_plain: "piece_ok (Txt ('' LIMIT '' @ show_int n))"
proof -
  have "\<not> is_decimal dq" "\<not> is_decimal (CHR ''$'')" by code_simp+
  then have "dq \<notin> set (show_nat k)" "CHR ''$'' \<notin> set (show_nat k)" for k
    using show_nat_decimal [of k] by (auto simp: list_all_iff)
  then show ?thesis by (simp add: show_int_def dq_def)
qed

lemma piece_ok_slot [simp]: "piece_ok (slot_piece s)"
proof (cases s)
  case Unbound
  moreover have "piece_ok (Txt ''%s'')" by code_simp
  ultimately show ?thesis by simp
qed simp

lemma list_all_cols: "list_all col_ok cs \<Longrightarrow> list_all piece_ok (cols_pieces cs)"
  unfolding cols_pieces_def by (rule list_all_pjoin) (auto simp: list_all_iff)

lemma list_all_slots: "list_all piece_ok (pjoin (map (\<lambda>v. [slot_piece (snd v)]) vs))"
  by (rule list_all_pjoin) auto

lemma list_all_sets:
  "list_all col_ok (map fst vs) \<Longrightarrow> list_all piece_ok (pjoin (map (\<lambda>v. [Col (fst v), Txt '' = '', slot_piece (snd v)]) vs))"
proof (rule list_all_pjoin)
  fix ps assume cols: "list_all col_ok (map fst vs)" and "ps \<in> set (map (\<lambda>v. [Col (fst v), Txt '' = '', slot_piece (snd v)]) vs)"
  then obtain v where "v \<in> set vs" "ps = [Col (fst v), Txt '' = '', slot_piece (snd v)]" by auto
  moreover have "piece_ok (Txt '' = '')" by code_simp
  ultimately show "list_all piece_ok ps" using cols by (simp add: list_all_iff del: piece_ok.simps(1))
qed

lemma pieces_ok:
  assumes "plan_ok q"
  shows "list_all piece_ok (pieces q)"
proof -
  have lits: "list_all (\<lambda>w. piece_ok (Txt w)) [''SELECT '', ''*'', '' FROM '', ''INSERT INTO '', '' ('', '') VALUES ('', '')'',
      ''UPDATE '', '' SET '', '' RETURNING '', ''DELETE FROM '', '' WHERE '', '' = '', '' ORDER BY '', '' DESC'', '' ASC'']"
    by code_simp
  have w2: "list_all piece_ok (where_pieces c) \<longleftrightarrow> list_all col_ok (map fst (opt_cols c))" for c
    using lits by (cases c) (auto simp add: where_pieces_def opt_cols_def simp del: piece_ok.simps(1))
  have od: "list_all piece_ok (order_pieces c) \<longleftrightarrow> list_all col_ok (map fst (opt_cols c))" for c
    using lits by (cases c) (auto simp add: order_pieces_def opt_cols_def simp del: piece_ok.simps(1))
  have li: "list_all piece_ok (limit_pieces l)" for l
    using show_int_plain by (cases l) (simp_all add: limit_pieces_def del: piece_ok.simps(1))
  show ?thesis
    using assms lits
    by (cases q) (simp_all add: plan_ok_def w2 od li list_all_cols list_all_slots list_all_sets comp_def del: piece_ok.simps(1))
qed

section \<open>The substitutions on pieces\<close>

interpretation triple_re: headed_pattern TRIPLE_RE "\<lambda>c. c = dq"
  by unfold_locales (simp add: TRIPLE_RE_def quoted_name_def)

interpretation double_re: headed_pattern DOUBLE_RE "\<lambda>c. c = dq"
  by unfold_locales (simp add: DOUBLE_RE_def quoted_name_def)

interpretation param_re: headed_pattern PARAM_RE "\<lambda>c. c = CHR ''$''"
  by unfold_locales (simp add: PARAM_RE_def lit_def)

lemma re_match_One: "re_match (One p # r) (c # s) =
    (if p c then map_option (\<lambda>(gs, u). ([c] # gs, u)) (re_match r s) else None)"
  by (cases "re_match r s") (auto simp: push_def skip_def)

text \<open>A quoted name at the front is read whole.\<close>

lemma match_quoted:
  assumes "dq \<notin> set w" "w \<noteq> []"
  shows "re_match (quoted_name @ r) (quoted w @ s) =
    map_option (\<lambda>(gs, u). ([dq] # w # [dq] # gs, u)) (re_match r s)"
proof (cases "re_match r s")
  case None
  have "re_match (quoted_name @ r) (quoted w @ s) = None"
  proof (rule ccontr)
    assume "re_match (quoted_name @ r) (quoted w @ s) \<noteq> None"
    then obtain gs u where e: "quoted w @ s = concat gs @ u" and sp: "splits_as (quoted_name @ r) gs u"
      unfolding re_match_iff_split by blast
    then obtain v gs' where gs: "gs = [dq] # v # [dq] # gs'" "list_all (\<lambda>c. c \<noteq> dq) v" "splits_as r gs' u"
      by (cases gs; cases "tl gs"; cases "tl (tl gs)") (auto simp: quoted_name_def split: list.splits)
    from e gs(1) have "w @ dq # s = v @ dq # concat gs' @ u" by (simp add: quoted_def dq_def)
    moreover have "takeWhile (\<lambda>c. c \<noteq> dq) (w @ dq # s) = w" "takeWhile (\<lambda>c. c \<noteq> dq) (v @ dq # concat gs' @ u) = v"
      using assms(1) gs(2) by (auto intro!: takeWhile_stop simp: list_all_iff)
    ultimately have "s = concat gs' @ u" by (metis append_same_eq same_append_eq list.inject)
    with gs(3) None show False using re_match_iff_split [of r s] by blast
  qed
  with None show ?thesis by simp
next
  case (Some m)
  have "re_match (One (\<lambda>c. c = dq) # r) (dq # s) = Some ([dq] # fst m, snd m)"
    by (cases m) (simp add: re_match_One Some)
  then have "re_match (Plus (\<lambda>c. c \<noteq> dq) # One (\<lambda>c. c = dq) # r) (w @ dq # s) = Some (w # [dq] # fst m, snd m)"
    by (rule re_match_Plus_run) (use assms in \<open>auto simp: list_all_iff\<close>)
  then show ?thesis
    by (cases m) (simp add: quoted_name_def quoted_def re_match_One Some dq_def)
qed

text \<open>Names have no quote, no dollar, and do not start with a point.\<close>

lemma sql_name_free: "sql_name w \<Longrightarrow> dq \<notin> set w \<and> CHR ''$'' \<notin> set w \<and> CHR ''.'' \<notin> set w \<and> w \<noteq> []"
proof -
  have "\<not> sql_name_char dq" "\<not> sql_name_char (CHR ''$'')" "\<not> sql_name_char (CHR ''.'')" by code_simp+
  then show "sql_name w \<Longrightarrow> ?thesis" by (auto simp: sql_name_def list_all_iff)
qed

lemma sql_name_hd: "sql_name w \<Longrightarrow> \<exists>c v. w = c # v \<and> c \<noteq> CHR ''.''"
  using sql_name_free [of w] by (cases w) auto

lemma no_dq_no_match: "dq \<notin> set x \<Longrightarrow> re_match (quoted_name @ r) (dq # x) = None"
proof (rule ccontr)
  assume x: "dq \<notin> set x" and m: "re_match (quoted_name @ r) (dq # x) \<noteq> None"
  from m obtain gs u where "dq # x = concat gs @ u" "splits_as (quoted_name @ r) gs u"
    unfolding re_match_iff_split by blast
  then have "dq \<in> set x"
    by (cases gs; cases "tl gs"; cases "tl (tl gs)") (auto simp: quoted_name_def split: list.splits)
  with x show False ..
qed

text \<open>Text after which a quote starts no qualified name.\<close>

definition quiet :: "string \<Rightarrow> bool" where
  "quiet x \<longleftrightarrow> dq \<notin> set x \<or>
     (\<exists>w y. x = w @ dq # y \<and> w \<noteq> [] \<and> dq \<notin> set w \<and> (\<exists>c v. y = c # v \<and> c \<noteq> CHR ''.''))"

lemma lit_dot_Cons: "re_match (lit ''.'' @ r) (c # s) = None \<longleftrightarrow> c \<noteq> CHR ''.'' \<or> re_match r s = None"
  by (simp add: lit_def re_match_One)

lemma quoted_Cons: "quoted w @ s = dq # w @ dq # s"
  by (simp add: quoted_def dq_def)

lemma quiet_no_match:
  assumes "quiet x"
  shows "re_match (quoted_name @ lit ''.'' @ r) (dq # x) = None"
proof (cases "dq \<in> set x")
  case True
  with assms obtain w c v where x: "x = w @ dq # c # v" "w \<noteq> []" "dq \<notin> set w" "c \<noteq> CHR ''.''"
    by (auto simp: quiet_def)
  then have "re_match (lit ''.'' @ r) (c # v) = None" by (simp only: lit_dot_Cons) simp
  then show ?thesis
    using match_quoted [OF x(3,2), of "lit ''.'' @ r" "c # v"] by (simp only: x(1) quoted_Cons) simp
qed (simp add: no_dq_no_match)

lemma first_quote:
  assumes "list_all piece_ok ps" "\<And>n. dq \<notin> set (ph n)"
  shows "dq \<notin> set (ptext render_table render_col ph ps) \<or>
    (\<exists>w c v. ptext render_table render_col ph ps = w @ dq # c # v \<and> dq \<notin> set w \<and> c \<noteq> CHR ''.'')"
  using assms(1)
proof (induction ps)
  case (Cons p ps)
  have app: "dq \<notin> set (u @ ptext render_table render_col ph ps) \<or>
    (\<exists>w c v. u @ ptext render_table render_col ph ps = w @ dq # c # v \<and> dq \<notin> set w \<and> c \<noteq> CHR ''.'')"
    if u: "dq \<notin> set u" for u
  proof (cases "dq \<in> set (ptext render_table render_col ph ps)")
    case True
    with Cons obtain w c v where "ptext render_table render_col ph ps = w @ dq # c # v" "dq \<notin> set w" "c \<noteq> CHR ''.''"
      by auto
    with u show ?thesis by (intro disjI2 exI [of _ "u @ w"] exI [of _ c] exI [of _ v]) simp
  qed (use u in simp)
  have name: "\<exists>w c v. quoted s @ x = w @ dq # c # v \<and> dq \<notin> set w \<and> c \<noteq> CHR ''.''" if sn: "sql_name s" for s x
  proof -
    obtain c v where "s = c # v" "c \<noteq> CHR ''.''" using sql_name_hd [OF sn] by blast
    then have "quoted s @ x = [] @ dq # c # v @ dq # x" by (simp add: quoted_Cons)
    with \<open>c \<noteq> CHR ''.''\<close> show ?thesis by (metis empty_iff list.set(1))
  qed
  show ?case
  proof (cases p)
    case (Txt w)
    with Cons.prems app [of w] show ?thesis by simp
  next
    case (Tab t)
    with Cons.prems name [of "fst t"] show ?thesis by (cases t) simp
  next
    case (Col c)
    obtain a b d where "c = (a, b, d)" by (cases c)
    with Col Cons.prems name [of a] show ?thesis by simp
  next
    case (Ph n)
    with app [of "ph n"] assms(2) show ?thesis by simp
  qed
qed simp

lemma quiet_ptext:
  assumes "list_all piece_ok ps" "starts_gap ps" "\<And>n. dq \<notin> set (ph n)"
  shows "quiet (ptext render_table render_col ph ps)"
proof (cases ps)
  case (Cons p qs)
  with assms(2) obtain w where w: "p = Txt w" "w \<noteq> []" by (cases p) (auto simp: starts_gap_def gap_def)
  have dw: "dq \<notin> set w" using assms(1) Cons w by simp
  have "list_all piece_ok qs" using assms(1) Cons by simp
  from first_quote [OF this assms(3)] show ?thesis
  proof
    assume "dq \<notin> set (ptext render_table render_col ph qs)"
    with dw w Cons show ?thesis by (simp add: quiet_def)
  next
    assume "\<exists>v c x. ptext render_table render_col ph qs = v @ dq # c # x \<and> dq \<notin> set v \<and> c \<noteq> CHR ''.''"
    then obtain v c x where "ptext render_table render_col ph qs = v @ dq # c # x" "dq \<notin> set v" "c \<noteq> CHR ''.''" by blast
    with dw w Cons show ?thesis
      unfolding quiet_def by (intro disjI2 exI [of _ "w @ v"] exI [of _ "c # x"]) simp
  qed
qed (simp add: quiet_def)

section \<open>The three passes\<close>

lemma separated_Cons: "separated (p # ps) \<Longrightarrow> separated ps \<and> ((\<exists>w. p = Txt w) \<or> starts_gap ps)"
  by (cases "p # ps" rule: separated.cases) (auto simp: starts_gap_def)

lemma starts_gap_hd:
  assumes "starts_gap ps"
  shows "ptext tab col ph ps = [] \<or>
    (\<exists>c v. ptext tab col ph ps = c # v \<and> c \<noteq> CHR ''.'' \<and> \<not> is_decimal c)"
proof (cases ps)
  case (Cons p qs)
  with assms obtain w where "p = Txt w" "gap w" by (cases p) (auto simp: starts_gap_def)
  with Cons show ?thesis by (cases w) (auto simp: gap_def)
qed simp

lemma triple_col:
  assumes "sql_name s" "sql_name t" "sql_name c"
  shows "re_match TRIPLE_RE (render_col (s, t, c) @ x) =
    Some ([[dq], s, [dq], ''.'', [dq], t, [dq], ''.'', [dq], c, [dq]], x)"
proof -
  have n: "dq \<notin> set w \<and> w \<noteq> []" if "sql_name w" for w using sql_name_free [OF that] by simp
  have last: "re_match quoted_name (quoted c @ x) = Some ([[dq], c, [dq]], x)"
    using match_quoted [of c "[]" x] n [OF assms(3)] by simp
  show ?thesis
    using n [OF assms(1)] n [OF assms(2)]
    by (simp add: TRIPLE_RE_def lit_def match_quoted last re_match_One)
qed

lemma double_table:
  assumes "sql_name s" "sql_name t"
  shows "re_match DOUBLE_RE (render_table (s, t) @ x) = Some ([[dq], s, [dq], ''.'', [dq], t, [dq]], x)"
proof -
  have n: "dq \<notin> set w \<and> w \<noteq> []" if "sql_name w" for w using sql_name_free [OF that] by simp
  have last: "re_match quoted_name (quoted t @ x) = Some ([[dq], t, [dq]], x)"
    using match_quoted [of t "[]" x] n [OF assms(2)] by simp
  show ?thesis
    using n [OF assms(1)] by (simp add: DOUBLE_RE_def match_quoted last)
qed

text \<open>A table is left alone by the pattern for columns.\<close>

lemma triple_table:
  assumes st: "sql_name s" "sql_name t" and x: "quiet x" "x = [] \<or> (\<exists>c v. x = c # v \<and> c \<noteq> CHR ''.'')"
  shows "re_sub TRIPLE_RE f (render_table (s, t) @ x) = render_table (s, t) @ re_sub TRIPLE_RE f x"
proof -
  have free: "list_all (\<lambda>c. c \<noteq> dq) w" if "sql_name w" for w
    using sql_name_free [OF that] by (auto simp: list_all_iff)
  have dot: "re_match (lit ''.'' @ r) x = None" for r
    using x(2) by (auto simp: lit_dot_Cons lit_def)
  have triple: "TRIPLE_RE = quoted_name @ lit ''.'' @ DOUBLE_RE"
    by (simp add: TRIPLE_RE_def DOUBLE_RE_def)
  have d: "re_match DOUBLE_RE (quoted t @ x) = None"
    using match_quoted [of t "lit ''.'' @ quoted_name" x] sql_name_free [OF st(2)] dot by (simp add: DOUBLE_RE_def)
  have "re_match TRIPLE_RE (quoted s @ CHR ''.'' # quoted t @ x) = None"
    using match_quoted [of s "lit ''.'' @ DOUBLE_RE" "CHR ''.'' # quoted t @ x"] sql_name_free [OF st(1)] d
    by (simp add: triple lit_dot_Cons)
  then have 1: "re_sub TRIPLE_RE f (quoted s @ CHR ''.'' # quoted t @ x) =
      dq # s @ re_sub TRIPLE_RE f (dq # CHR ''.'' # quoted t @ x)"
    unfolding quoted_Cons using triple_re.sub_prefix [OF free [OF st(1)]] by (simp add: triple_re.sub_step)
  obtain c v where t: "t = c # v" "c \<noteq> CHR ''.''" using sql_name_hd [OF st(2)] by blast
  have "quiet (CHR ''.'' # quoted t @ x)"
    unfolding quiet_def by (intro disjI2 exI [of _ "''.''"] exI [of _ "t @ dq # x"]) (simp add: quoted_Cons t dq_def)
  then have "re_match TRIPLE_RE (dq # CHR ''.'' # quoted t @ x) = None"
    unfolding triple by (rule quiet_no_match)
  then have 2: "re_sub TRIPLE_RE f (dq # CHR ''.'' # quoted t @ x) = dq # CHR ''.'' # re_sub TRIPLE_RE f (quoted t @ x)"
    by (simp add: triple_re.sub_step triple_re.sub_other dq_def)
  have "re_match TRIPLE_RE (quoted t @ x) = None"
    using match_quoted [of t "lit ''.'' @ DOUBLE_RE" x] sql_name_free [OF st(2)] dot by (simp add: triple)
  moreover have "re_match TRIPLE_RE (dq # x) = None"
    unfolding triple using x(1) by (rule quiet_no_match)
  ultimately have 3: "re_sub TRIPLE_RE f (quoted t @ x) = quoted t @ re_sub TRIPLE_RE f x"
    unfolding quoted_Cons using triple_re.sub_prefix [OF free [OF st(2)]] by (simp add: triple_re.sub_step)
  show ?thesis by (simp add: 1 2 3) (simp add: quoted_def dq_def)
qed

lemma placeholder_no_dq: "dq \<notin> set (placeholder n)"
proof -
  have "\<not> is_decimal dq" "dq \<noteq> CHR ''$''" by code_simp+
  then show ?thesis using show_nat_decimal [of n] by (auto simp: placeholder_def list_all_iff)
qed

lemma free_prefix: "c \<notin> set w \<Longrightarrow> list_all (\<lambda>d. d \<noteq> c) w"
  by (auto simp: list_all_iff)

lemma triple_pass:
  "list_all piece_ok ps \<Longrightarrow> separated ps \<Longrightarrow>
     re_sub TRIPLE_RE (\<lambda>gs. gs ! 9) (ptext render_table render_col placeholder ps) =
     ptext render_table bare_col placeholder ps"
proof (induction ps)
  case Nil
  then show ?case by (simp add: triple_re.sub_Nil)
next
  case (Cons p ps)
  have ok: "list_all piece_ok ps" "separated ps" using Cons.prems separated_Cons by auto
  note IH = Cons.IH [OF ok]
  show ?case
  proof (cases p)
    case (Txt w)
    then show ?thesis
      using Cons.prems triple_re.sub_prefix [OF free_prefix [of dq w]] by (simp add: IH)
  next
    case (Ph n)
    then show ?thesis
      using triple_re.sub_prefix [OF free_prefix [OF placeholder_no_dq]] by (simp add: IH)
  next
    case (Col c)
    obtain s t k where c: "c = (s, t, k)" by (cases c)
    then have n: "sql_name s" "sql_name t" "sql_name k" using Cons.prems Col by simp_all
    show ?thesis
      using triple_re.sub_match [OF triple_col [OF n, of "ptext render_table render_col placeholder ps"], of "\<lambda>gs. gs ! 9"]
      by (simp add: Col c IH bare_col_def [of "(s, t, k)"])
  next
    case (Tab t)
    obtain s k where t: "t = (s, k)" by (cases t)
    then have n: "sql_name s" "sql_name k" using Cons.prems Tab by simp_all
    have gap: "starts_gap ps" using separated_Cons [OF Cons.prems(2)] Tab by auto
    have q: "quiet (ptext render_table render_col placeholder ps)"
      using quiet_ptext [OF ok(1) gap placeholder_no_dq] .
    have h: "ptext render_table render_col placeholder ps = [] \<or>
        (\<exists>c v. ptext render_table render_col placeholder ps = c # v \<and> c \<noteq> CHR ''.'')"
      using starts_gap_hd [OF gap, of render_table render_col placeholder] by blast
    show ?thesis
      using triple_table [OF n q h] by (simp add: Tab t IH del: render_table.simps)
  qed
qed

lemma double_pass:
  "list_all piece_ok ps \<Longrightarrow>
     re_sub DOUBLE_RE (\<lambda>gs. gs ! 5) (ptext render_table bare_col placeholder ps) = ptext snd bare_col placeholder ps"
proof (induction ps)
  case Nil
  then show ?case by (simp add: double_re.sub_Nil)
next
  case (Cons p ps)
  note IH = Cons.IH
  show ?case
  proof (cases p)
    case (Txt w)
    then show ?thesis
      using Cons.prems double_re.sub_prefix [OF free_prefix [of dq w]] by (simp add: IH)
  next
    case (Ph n)
    then show ?thesis
      using Cons.prems double_re.sub_prefix [OF free_prefix [OF placeholder_no_dq]] by (simp add: IH)
  next
    case (Col c)
    obtain s t k where c: "c = (s, t, k)" by (cases c)
    then have "dq \<notin> set k" using Cons.prems Col sql_name_free by simp
    then show ?thesis
      using Cons.prems double_re.sub_prefix [OF free_prefix [of dq k]] by (simp add: Col c IH bare_col_def [of "(s, t, k)"])
  next
    case (Tab t)
    obtain s k where t: "t = (s, k)" by (cases t)
    then have n: "sql_name s" "sql_name k" using Cons.prems Tab by simp_all
    show ?thesis
      using double_re.sub_match [OF double_table [OF n, of "ptext render_table bare_col placeholder ps"], of "\<lambda>gs. gs ! 5"]
        Cons.prems by (simp add: Tab t IH del: render_table.simps)
  qed
qed

lemma param_pass:
  "list_all piece_ok ps \<Longrightarrow> separated ps \<Longrightarrow>
     re_sub PARAM_RE (\<lambda>_. ''?'') (ptext snd bare_col placeholder ps) = ptext snd bare_col (\<lambda>_. ''?'') ps"
proof (induction ps)
  case Nil
  then show ?case by (simp add: param_re.sub_Nil)
next
  case (Cons p ps)
  have ok: "list_all piece_ok ps" "separated ps" using Cons.prems separated_Cons by auto
  note IH = Cons.IH [OF ok]
  show ?case
  proof (cases p)
    case (Txt w)
    then show ?thesis
      using Cons.prems param_re.sub_prefix [OF free_prefix [of "CHR ''$''" w]] by (simp add: IH)
  next
    case (Tab t)
    then have "CHR ''$'' \<notin> set (snd t)" using Cons.prems sql_name_free by simp
    then show ?thesis
      using param_re.sub_prefix [OF free_prefix [of "CHR ''$''" "snd t"]] by (simp add: Tab IH)
  next
    case (Col c)
    obtain s t k where c: "c = (s, t, k)" by (cases c)
    then have "CHR ''$'' \<notin> set k" using Cons.prems Col sql_name_free by simp
    then show ?thesis
      using param_re.sub_prefix [OF free_prefix [of "CHR ''$''" k]] by (simp add: Col c IH bare_col_def [of "(s, t, k)"])
  next
    case (Ph n)
    have "starts_gap ps" using separated_Cons [OF Cons.prems(2)] Ph by auto
    from starts_gap_hd [OF this, of snd bare_col placeholder]
    have "re_match [Plus is_decimal] (show_nat n @ ptext snd bare_col placeholder ps) =
        Some ([show_nat n], ptext snd bare_col placeholder ps)"
      by (intro re_match_Plus_run) (auto simp: show_nat_decimal)
    then have "re_match PARAM_RE (placeholder n @ ptext snd bare_col placeholder ps) =
        Some ([''$'', show_nat n], ptext snd bare_col placeholder ps)"
      by (simp add: PARAM_RE_def placeholder_def lit_def re_match_One)
    from param_re.sub_match [OF this, of "\<lambda>_. ''?''"] show ?thesis
      by (simp add: Ph IH)
  qed
qed

lemma flatten_render:
  assumes "plan_ok q"
  shows "flatten_sql (render_sql q) = flat_text q"
  using pieces_ok [OF assms] separated_pieces [of q]
  by (simp add: flatten_sql_def render_pieces flat_text_def triple_pass double_pass param_pass)

section \<open>The numbers of the placeholders\<close>

text \<open>The numbers after the dollar signs of a text, from left to right.\<close>

fun sql_numbers :: "string \<Rightarrow> nat list" where
  "sql_numbers [] = []"
| "sql_numbers (c # s) =
     (if c = CHR ''$'' then nat_of_digits (takeWhile is_decimal s) # sql_numbers s else sql_numbers s)"

fun piece_numbers :: "piece list \<Rightarrow> nat list" where
  "piece_numbers [] = []"
| "piece_numbers (Ph n # ps) = n # piece_numbers ps"
| "piece_numbers (p # ps) = piece_numbers ps"

lemma sql_numbers_skip: "CHR ''$'' \<notin> set w \<Longrightarrow> sql_numbers (w @ s) = sql_numbers s"
  by (induction w) auto

lemma sql_numbers_placeholder:
  assumes "s = [] \<or> \<not> is_decimal (hd s)"
  shows "sql_numbers (placeholder n @ s) = n # sql_numbers s"
proof -
  have "takeWhile is_decimal (show_nat n @ s) = show_nat n"
    using show_nat_decimal [of n] assms by (cases s) (auto simp: list_all_iff takeWhile_tail takeWhile_all)
  moreover have "CHR ''$'' \<notin> set (show_nat n)"
    using show_int_plain [of "int n"] by (simp add: show_int_def)
  ultimately show ?thesis
    by (simp add: placeholder_def sql_numbers_skip)
qed

lemma quoted_no_dollar: "sql_name w \<Longrightarrow> CHR ''$'' \<notin> set (quoted w)"
  using sql_name_free [of w] by (auto simp: quoted_def)

lemma sql_numbers_ptext:
  "list_all piece_ok ps \<Longrightarrow> separated ps \<Longrightarrow>
     sql_numbers (ptext render_table render_col placeholder ps) = piece_numbers ps"
proof (induction ps)
  case (Cons p ps)
  have IH: "sql_numbers (ptext render_table render_col placeholder ps) = piece_numbers ps"
    using Cons separated_Cons by auto
  show ?case
  proof (cases p)
    case (Ph n)
    then have "starts_gap ps" using separated_Cons [OF Cons.prems(2)] by auto
    then have "sql_numbers (placeholder n @ ptext render_table render_col placeholder ps) =
        n # sql_numbers (ptext render_table render_col placeholder ps)"
      using starts_gap_hd [of ps render_table render_col placeholder]
      by (intro sql_numbers_placeholder) auto
    with Ph IH show ?thesis by simp
  next
    case (Tab t)
    with Cons.prems IH show ?thesis
      by (cases t) (simp add: sql_numbers_skip quoted_no_dollar)
  next
    case (Col c)
    with Cons.prems IH show ?thesis
      by (cases c) (simp add: sql_numbers_skip quoted_no_dollar)
  qed (use Cons.prems IH in \<open>simp add: sql_numbers_skip\<close>)
qed simp

lemma sql_numbers_render:
  assumes "plan_ok q"
  shows "sql_numbers (render_sql q) = piece_numbers (pieces q)"
  unfolding render_pieces using pieces_ok [OF assms] separated_pieces by (rule sql_numbers_ptext)

end
