(* ===== verification/Liq_Params.thy ===== *)
theory Liq_Params
  imports Sql_Flatten
begin

text \<open>
  Parameters and constants of compiled statements: which schema key each placeholder stands
  for, when the placeholders and the schema agree, that constants leave no trace in the SQL,
  and that the JSON form of a statement determines what it compiles to.
\<close>

section \<open>Placeholders and the schema\<close>

text \<open>The columns a statement gives a value, with that value, in the order of the source.\<close>

definition where_assigns :: "where_pred option \<Rightarrow> bindings" where
  "where_assigns w = (case w of None \<Rightarrow> [] | Some p \<Rightarrow> [(p_column p, p_rhs p)])"

fun assigns :: "stmt \<Rightarrow> bindings" where
  "assigns (ReadStmt s) = where_assigns (r_where s)"
| "assigns (InsertStmt s) = i_bindings s"
| "assigns (UpdateStmt s) = u_bindings s @ where_assigns (u_where s)"
| "assigns (DeleteStmt s) = where_assigns (d_where s)"

fun plan_assigns :: "sql_plan_ast \<Rightarrow> (sql_col \<times> slot) list" where
  "plan_assigns (Select cs t w od l) = map (\<lambda>c. (c, Bound 1)) (opt_cols w)"
| "plan_assigns (Insert t vs) = vs"
| "plan_assigns (Update t vs w ret) = vs @ map (\<lambda>(c, k). (c, Bound k)) (opt_cols w)"
| "plan_assigns (Delete t w) = map (\<lambda>c. (c, Bound 1)) (opt_cols w)"

text \<open>Slot \<open>$j\<close> is filled with the value of the schema's \<open>j\<close>-th key.\<close>

fun slot_matches :: "string list \<Rightarrow> rhs_value \<Rightarrow> slot \<Rightarrow> bool" where
  "slot_matches keys (Param n) (Bound j) \<longleftrightarrow> 1 \<le> j \<and> j \<le> length keys \<and> keys ! (j - 1) = n"
| "slot_matches keys (Lit c) Unbound \<longleftrightarrow> True"
| "slot_matches keys _ _ \<longleftrightarrow> False"

definition assign_matches :: "string list \<Rightarrow> string \<times> rhs_value \<Rightarrow> sql_col \<times> slot \<Rightarrow> bool" where
  "assign_matches keys b v \<longleftrightarrow> snd (snd (fst v)) = fst b \<and> slot_matches keys (snd b) (snd v)"

lemma binding_occs_simps [simp]:
  "binding_occs [] = []" "binding_occs ((f, Param n) # bs) = n # binding_occs bs"
  "binding_occs ((f, Lit c) # bs) = binding_occs bs"
  "binding_occs (bs @ cs) = binding_occs bs @ binding_occs cs"
  by (simp_all add: binding_occs_def)

lemma where_assigns_occs: "binding_occs (where_assigns w) = pred_occs w"
  by (cases w) (simp_all add: where_assigns_def pred_occs_def binding_occs_def)

lemma param_occs_assigns: "param_occs s = binding_occs (assigns s)"
  by (cases s) (simp_all add: where_assigns_occs)

lemma bind_slots_append: "bind_slots k (bs @ cs) = bind_slots k bs @ bind_slots (k + length (binding_occs bs)) cs"
  by (induction k bs rule: bind_slots.induct) (simp_all add: algebra_simps)

lemma slot_matches_bind_slots:
  "list_all2 (slot_matches (pre @ binding_occs bs)) (map snd bs) (bind_slots (length pre) bs)"
proof (induction "length pre" bs arbitrary: pre rule: bind_slots.induct)
  case (2 f n bs)
  have "list_all2 (slot_matches ((pre @ [n]) @ binding_occs bs)) (map snd bs) (bind_slots (length (pre @ [n])) bs)"
    by (rule 2) simp
  then show ?case by simp
qed simp_all

text \<open>The columns of a plan's assignments are those of the statement, and its slots are numbered
  from left to right.\<close>

lemma emap_resolve_names:
  "emap (resolve_column t) ns = Inr cs \<Longrightarrow> map (\<lambda>c. snd (snd c)) cs = ns"
  by (induction ns arbitrary: cs) (auto simp: ebind_eq_Inr resolve_column_Inr)

lemma where_assigns_resolve:
  "resolve_where t w = Inr c \<Longrightarrow> map (\<lambda>c. snd (snd c)) (opt_cols c) = map fst (where_assigns w) \<and>
     bind_slots k (where_assigns w) = map (\<lambda>_. Bound (k + 1)) (opt_cols c)"
  by (auto simp: resolve_where_def where_assigns_def opt_cols_def ebind_eq_Inr resolve_column_Inr
      split: option.splits rhs_value.splits)

lemma zip_bindings:
  assumes "emap (resolve_column t) (map fst bs) = Inr cs"
  shows "map (\<lambda>v. snd (snd (fst v))) (zip cs (bind_slots k bs)) = map fst bs"
    and "map snd (zip cs (bind_slots k bs)) = bind_slots k bs"
proof -
  have len: "length cs = length (bind_slots k bs)"
    using emap_length [OF assms] by simp
  have "map (\<lambda>v. snd (snd (fst v))) (zip cs (bind_slots k bs)) = map (\<lambda>c. snd (snd c)) (map fst (zip cs (bind_slots k bs)))"
    by (simp add: comp_def)
  then show "map (\<lambda>v. snd (snd (fst v))) (zip cs (bind_slots k bs)) = map fst bs"
    using emap_resolve_names [OF assms] len by simp
  show "map snd (zip cs (bind_slots k bs)) = bind_slots k bs"
    using len by simp
qed

lemma resolve_assigns:
  assumes "resolve_stmt s = Inr q"
  shows "map (\<lambda>v. snd (snd (fst v))) (plan_assigns q) = map fst (assigns s) \<and>
    map snd (plan_assigns q) = bind_slots 0 (assigns s)"
proof (cases s)
  case (ReadStmt r)
  with assms show ?thesis
    by (auto simp: Let_def ebind_eq_Inr comp_def dest!: where_assigns_resolve [where k = 0])
next
  case (InsertStmt i)
  with assms show ?thesis
    by (auto simp: Let_def ebind_eq_Inr zip_bindings)
next
  case (DeleteStmt d)
  with assms show ?thesis
    by (auto simp: Let_def ebind_eq_Inr comp_def dest!: where_assigns_resolve [where k = 0])
next
  case (UpdateStmt u)
  let ?k = "length (binding_occs (u_bindings u))"
  from assms UpdateStmt obtain tab cs w ret where
    cs: "emap (resolve_column (raw (u_table u))) (map fst (u_bindings u)) = Inr cs"
    and w: "resolve_where (raw (u_table u)) (u_where u) = Inr w"
    and q: "q = Update tab (zip cs (bind_slots 0 (u_bindings u))) (map_option (\<lambda>c. (c, ?k + 1)) w) ret"
    by (auto simp: Let_def ebind_eq_Inr)
  show ?thesis
    using where_assigns_resolve [OF w, of ?k] unfolding UpdateStmt q
    by (auto simp: zip_bindings [OF cs] bind_slots_append comp_def)
qed

lemma list_all2_maps:
  "list_all2 (assign_matches keys) bs vs \<longleftrightarrow>
     map (\<lambda>v. snd (snd (fst v))) vs = map fst bs \<and> list_all2 (slot_matches keys) (map snd bs) (map snd vs)"
proof (induction bs arbitrary: vs)
  case (Cons b bs)
  then show ?case by (cases vs) (auto simp: assign_matches_def)
qed auto

text \<open>If no parameter occurs twice, every placeholder stands for its own parameter.\<close>

lemma placeholders_match:
  assumes "resolve_stmt s = Inr q" "distinct (param_occs s)"
  shows "list_all2 (assign_matches (dict_keys (schema_of s))) (assigns s) (plan_assigns q)"
proof -
  have "dict_keys (schema_of s) = binding_occs (assigns s)"
    using assms(2)
    by (simp add: schema_of_def typed_def [symmetric] collect_params_first_occs first_occs_id
        param_occs_assigns del: collect_params.simps param_occs.simps)
  then show ?thesis
    using resolve_assigns [OF assms(1)] slot_matches_bind_slots [of "[]" "assigns s"]
    by (simp add: list_all2_maps)
qed

text \<open>The numbers of the placeholders of a plan, in the order of the text.\<close>

fun slot_numbers :: "slot list \<Rightarrow> nat list" where
  "slot_numbers [] = []"
| "slot_numbers (Bound k # vs) = k # slot_numbers vs"
| "slot_numbers (Unbound # vs) = slot_numbers vs"

definition plan_placeholders :: "sql_plan_ast \<Rightarrow> nat list" where
  "plan_placeholders q = slot_numbers (map snd (plan_assigns q))"

lemma slot_numbers_bind_slots: "slot_numbers (bind_slots k bs) = [k + 1..<k + 1 + length (binding_occs bs)]"
  by (induction k bs rule: bind_slots.induct) (simp_all add: upt_rec)

lemma plan_placeholders_eq:
  "resolve_stmt s = Inr q \<Longrightarrow> plan_placeholders q = [1..<length (param_occs s) + 1]"
  by (simp add: plan_placeholders_def resolve_assigns slot_numbers_bind_slots param_occs_assigns
      del: param_occs.simps)

text \<open>These are the numbers in the text.\<close>

lemma piece_numbers_append: "piece_numbers (ps @ qs) = piece_numbers ps @ piece_numbers qs"
  by (induction ps rule: piece_numbers.induct) simp_all

lemma piece_numbers_pjoin: "piece_numbers (pjoin pss) = concat (map piece_numbers pss)"
  by (induction pss rule: pjoin.induct) (simp_all add: piece_numbers_append)

lemma piece_numbers_slot: "piece_numbers [slot_piece v] = slot_numbers [v]"
  by (cases v) simp_all

lemma slot_numbers_concat: "slot_numbers vs = concat (map (\<lambda>v. slot_numbers [v]) vs)"
  by (induction vs rule: slot_numbers.induct) simp_all

lemma piece_numbers_plan: "piece_numbers (pieces q) = plan_placeholders q"
proof -
  have cols: "piece_numbers (cols_pieces cs) = []" for cs
    by (simp add: cols_pieces_def piece_numbers_pjoin)
  have slots: "slot_numbers (map snd vs) = concat (map (\<lambda>v. piece_numbers [slot_piece (snd v)]) vs)"
    for vs :: "(sql_col \<times> slot) list"
    by (subst slot_numbers_concat) (simp add: piece_numbers_slot comp_def)
  have app: "slot_numbers (vs @ ws) = slot_numbers vs @ slot_numbers ws" for vs ws
    by (induction vs rule: slot_numbers.induct) simp_all
  show ?thesis
    by (cases q)
      (auto simp: plan_placeholders_def where_pieces_def order_pieces_def limit_pieces_def opt_cols_def cols
        piece_numbers_append piece_numbers_pjoin slots app comp_def split: option.split)
qed

lemma sql_numbers_lowered:
  assumes "resolve_stmt s = Inr q"
  shows "sql_numbers (render_sql q) = [1..<length (param_occs s) + 1]"
  using resolve_stmt_ok [OF assms] plan_placeholders_eq [OF assms]
  by (simp add: sql_numbers_render piece_numbers_plan del: param_occs.simps upt_Suc)

lemma schema_of_length:
  "length (schema_of s) = card (set (param_occs s))" "length (schema_of s) = length (param_occs s) \<longleftrightarrow> distinct (param_occs s)"
  using length_first_occs [of "param_occs s"] distinct_card [OF distinct_first_occs [of "param_occs s"]]
  by (simp_all add: schema_of_def collect_params_first_occs del: collect_params.simps param_occs.simps)

section \<open>Constants\<close>

text \<open>Every constant replaced by \<open>0\<close>.\<close>

fun erase_rhs :: "rhs_value \<Rightarrow> rhs_value" where
  "erase_rhs (Param n) = Param n"
| "erase_rhs (Lit c) = Lit (CInt 0)"

definition erase_bindings :: "bindings \<Rightarrow> bindings" where
  "erase_bindings bs = map (\<lambda>(f, r). (f, erase_rhs r)) bs"

definition erase_where :: "where_pred option \<Rightarrow> where_pred option" where
  "erase_where w = map_option (\<lambda>p. p\<lparr>p_rhs := erase_rhs (p_rhs p)\<rparr>) w"

fun erase_consts :: "stmt \<Rightarrow> stmt" where
  "erase_consts (ReadStmt s) = ReadStmt (s\<lparr>r_where := erase_where (r_where s)\<rparr>)"
| "erase_consts (InsertStmt s) = InsertStmt (s\<lparr>i_bindings := erase_bindings (i_bindings s)\<rparr>)"
| "erase_consts (UpdateStmt s) = UpdateStmt
     (s\<lparr>u_bindings := erase_bindings (u_bindings s), u_where := erase_where (u_where s)\<rparr>)"
| "erase_consts (DeleteStmt s) = DeleteStmt (s\<lparr>d_where := erase_where (d_where s)\<rparr>)"

lemma rhs_params_erase [simp]: "rhs_params (erase_rhs r) = rhs_params r"
  by (cases r) simp_all

lemma erase_occs [simp]: "pred_occs (erase_where w) = pred_occs w" "binding_occs (erase_bindings bs) = binding_occs bs"
  by (simp_all add: pred_occs_def erase_where_def binding_occs_def erase_bindings_def case_prod_unfold comp_def
      split: option.split)

lemma erase_where_resolve [simp]: "resolve_where t (erase_where w) = resolve_where t w"
  by (auto simp: resolve_where_def erase_where_def split: option.split rhs_value.splits elim: erase_rhs.elims)

lemma erase_bind_slots [simp]: "bind_slots k (erase_bindings bs) = bind_slots k bs"
  by (induction k bs rule: bind_slots.induct) (simp_all add: erase_bindings_def)

lemma erase_fields [simp]: "map fst (erase_bindings bs) = map fst bs"
  by (simp add: erase_bindings_def case_prod_unfold)

lemma erase_resolve: "resolve_stmt (erase_consts s) = resolve_stmt s"
  by (cases s) (simp_all add: Let_def cong del: ebind_cong_weak)

lemma erase_schema: "schema_of (erase_consts s) = schema_of s"
  unfolding schema_of_def collect_params_first_occs by (cases s) simp_all

lemma lower_erase: "lower_stmt (erase_consts s) = lower_stmt s"
  by (simp only: lower_stmt_refines erase_resolve erase_schema)

section \<open>The JSON form determines the lowering\<close>

lemma ident_ir_inject: "ident_ir i = ident_ir j \<longleftrightarrow> i = j"
  by (auto simp: ident_ir_def inj_map_eq_map inj_def)

lemma rhs_ir_inject: "rhs_ir r = rhs_ir r' \<longleftrightarrow> r = r'"
  by (cases r rule: rhs_ir.cases; cases r' rule: rhs_ir.cases) auto

lemma pred_ir_inject: "pred_ir p = pred_ir p' \<longleftrightarrow> p = p'"
  by (cases p; cases p') (auto simp: pred_ir_def rhs_ir_inject intro: where_pred.equality)

lemma columns_ir_truthy: "columns_ir cs = columns_ir ds \<longleftrightarrow> truthy cs = truthy ds"
proof -
  have inj: "map JStr v = map JStr w \<longleftrightarrow> v = w" for v w
    by (rule inj_map_eq_map) (simp add: inj_def)
  have eq: "columns_ir cs = (if truthy cs = [] then JNull else JList (map JStr (truthy cs)))" for cs
    by (auto simp: columns_ir_def truthy_def split: option.split list.split)
  show ?thesis by (simp add: eq inj)
qed

lemma bindings_ir_inject: "bindings_ir bs = bindings_ir bs' \<longleftrightarrow> bs = bs'"
proof -
  let ?b = "\<lambda>(f, v). JObj [(''field'', JStr f), (''rhs'', rhs_ir v)]"
  have "inj ?b"
    by (auto simp: inj_def rhs_ir_inject)
  then show ?thesis
    by (simp add: bindings_ir_def inj_map_eq_map)
qed

definition order_ir :: "string option \<Rightarrow> bool \<Rightarrow> json" where
  "order_ir oc desc = (case oc of None \<Rightarrow> JNull
     | Some c \<Rightarrow> if c = [] then JNull else JObj [(''column'', JStr c), (''desc'', JBool desc)])"

lemma order_ir_eq: "order_ir oc d = order_ir oc' d' \<longleftrightarrow> truthy oc = truthy oc' \<and> (truthy oc = [] \<or> d = d')"
  by (auto simp: order_ir_def truthy_def split: option.splits)

lemma limit_ir_inject:
  "(case l of None \<Rightarrow> JNull | Some n \<Rightarrow> JInt n) = (case m of None \<Rightarrow> JNull | Some n \<Rightarrow> JInt n) \<longleftrightarrow> l = m"
  by (cases l; cases m) auto

lemmas ir_inject = ident_ir_inject pred_ir_inject columns_ir_truthy bindings_ir_inject
  order_ir_eq [unfolded order_ir_def] limit_ir_inject

lemma ir_determines_plan:
  assumes "stmt_to_ir s = stmt_to_ir s'"
  shows "resolve_stmt s = resolve_stmt s' \<and> param_occs s = param_occs s'"
  using assms by (cases s; cases s') (auto simp: ir_inject Let_def cong del: ebind_cong_weak)

lemma ir_determines_lowering: "stmt_to_ir s = stmt_to_ir s' \<Longrightarrow> lower_stmt s = lower_stmt s'"
  using ir_determines_plan [of s s']
  by (simp cong del: ebind_cong_weak add: lower_stmt_refines schema_of_def collect_params_first_occs
      del: collect_params.simps param_occs.simps resolve_stmt.simps stmt_to_ir.simps)

section \<open>Compilation\<close>

lemma compile_Inr:
  "compile sha src = Inr r \<longleftrightarrow>
     (\<exists>s q. parse src = Inr s \<and> resolve_stmt s = Inr q \<and>
        r = \<lparr>c_plan_id = plan_id_of sha src (stmt_to_ir s), c_ir = stmt_to_ir s,
             c_sql = render_sql q, c_param_schema = schema_of s\<rparr>)"
  by (auto simp: compile_def Let_def lower_stmt_refines ebind_eq_Inr)

lemma compileE:
  assumes "compile sha src = Inr r"
  obtains s q where "parse src = Inr s" "resolve_stmt s = Inr q" "c_sql r = render_sql q"
    "c_param_schema r = schema_of s" "c_ir r = stmt_to_ir s"
    "c_plan_id r = plan_id_of sha src (stmt_to_ir s)"
  using assms by (auto simp: compile_Inr)

lemma resolve_stmt_Inl: "resolve_stmt s = Inl e \<Longrightarrow> e = CompileError \<or> (\<exists>m. e = CatalogError m)"
proof -
  have w: "resolve_where t w = Inl e \<Longrightarrow> e = CompileError \<or> (\<exists>m. e = CatalogError m)" for t w
    by (auto simp: resolve_where_def ebind_eq_Inl dest: resolve_column_Inl split: option.splits rhs_value.splits)
  show "resolve_stmt s = Inl e \<Longrightarrow> e = CompileError \<or> (\<exists>m. e = CatalogError m)"
    by (cases s)
      (auto simp: Let_def ebind_eq_Inl split: if_splits
        dest!: resolve_table_Inl emap_Inl resolve_column_Inl w)
qed

end
