(* ===== verification/Liorm_Capabilities.thy ===== *)
theory Liorm_Capabilities
  imports Lidb_Prelude
begin

text \<open>\<open>liorm/capabilities.py\<close>: which profile may use raw SQL, and for what.\<close>

datatype raw_sql_capability = SESSION | MIGRATION

datatype profile = AGENT | MCP | CLI_ADMIN | MIGRATION_RUNNER

text \<open>The values of the two \<open>str\<close> enumerations.\<close>

fun cap_value :: "raw_sql_capability \<Rightarrow> string" where
  "cap_value SESSION = ''raw_sql:session''"
| "cap_value MIGRATION = ''raw_sql:migration''"

fun profile_value :: "profile \<Rightarrow> string" where
  "profile_value AGENT = ''agent''"
| "profile_value MCP = ''mcp''"
| "profile_value CLI_ADMIN = ''cli_admin''"
| "profile_value MIGRATION_RUNNER = ''migration_runner''"

definition PROFILE_CAPS :: "(profile, raw_sql_capability set) dict" where
  "PROFILE_CAPS = [(AGENT, {}), (MCP, {}), (CLI_ADMIN, {SESSION}), (MIGRATION_RUNNER, {MIGRATION})]"

definition assert_capability :: "profile \<Rightarrow> raw_sql_capability \<Rightarrow> unit result" where
  "assert_capability profile cap =
     (let allowed = (case map_of PROFILE_CAPS profile of None \<Rightarrow> {} | Some cs \<Rightarrow> cs) in
      if cap \<notin> allowed then Inl CapabilityDenied else Inr ())"

instantiation profile :: finite
begin

instance
proof
  have "(UNIV :: profile set) = {AGENT, MCP, CLI_ADMIN, MIGRATION_RUNNER}"
    using profile.exhaust by blast
  then show "finite (UNIV :: profile set)" by (metis finite.emptyI finite.insertI)
qed

end

lemma assert_capability_iff:
  "assert_capability p c = Inr () \<longleftrightarrow> (p, c) \<in> {(CLI_ADMIN, SESSION), (MIGRATION_RUNNER, MIGRATION)}"
  by (cases p; cases c) (simp_all add: assert_capability_def PROFILE_CAPS_def)

lemma assert_capability_cases: "assert_capability p c \<in> {Inr (), Inl CapabilityDenied}"
  by (simp add: assert_capability_def Let_def)

lemma enum_values_inject: "profile_value p = profile_value p' \<longleftrightarrow> p = p'" "cap_value c = cap_value c' \<longleftrightarrow> c = c'"
  by (cases p; cases p'; simp) (cases c; cases c'; simp)

end
