(* ===== verification/Liorm_Audit.thy ===== *)
theory Liorm_Audit
  imports Py_Json Py_Regex Liorm_Capabilities
begin

text \<open>
  \<open>liorm/audit.py\<close>: the append-only audit log whose entries are chained by hashes, the check
  of the chain, and the redaction of secrets in log lines. The hash function is the parameter
  \<open>sha\<close> (\<open>sha256(text.encode()).hexdigest()\<close>); a float is the text of its \<open>repr\<close>; the clock
  (\<open>time.time()\<close>) and the conversion \<open>float(x)\<close> of a value the caller passes are parameters.
\<close>

section \<open>The log\<close>

record audit_entry =
  a_seq :: int
  a_event :: string
  a_payload :: "(string, json) dict"
  a_recorded_at :: string
  a_prev_hash :: string
  a_entry_hash :: string

type_synonym audit_log = "audit_entry list"

definition GENESIS :: string where
  "GENESIS = ''genesis''"

definition entry_body :: "int \<Rightarrow> string \<Rightarrow> (string, json) dict \<Rightarrow> string \<Rightarrow> string \<Rightarrow> json" where
  "entry_body seq event payload recorded_at prev_hash = JObj [
     (''seq'', JInt seq), (''event'', JStr event), (''payload'', JObj payload),
     (''recorded_at'', JFloat recorded_at), (''prev_hash'', JStr prev_hash)]"

definition entry_hash ::
  "(string \<Rightarrow> string) \<Rightarrow> int \<Rightarrow> string \<Rightarrow> (string, json) dict \<Rightarrow> string \<Rightarrow> string \<Rightarrow> string" where
  "entry_hash sha seq event payload recorded_at prev_hash =
     sha (dumps '','' '':'' (sort_keys (entry_body seq event payload recorded_at prev_hash)))"

text \<open>\<open>payload.pop("recorded_at", None)\<close>, where an explicit \<open>None\<close> counts as absent.\<close>

definition entry_time :: "(json \<Rightarrow> string result) \<Rightarrow> string \<Rightarrow> (string, json) dict \<Rightarrow> string result" where
  "entry_time to_float now payload =
     (case map_of payload ''recorded_at'' of
        None \<Rightarrow> Inr now
      | Some JNull \<Rightarrow> Inr now
      | Some v \<Rightarrow> to_float v)"

definition append_entry ::
  "(string \<Rightarrow> string) \<Rightarrow> (json \<Rightarrow> string result) \<Rightarrow> string \<Rightarrow> string \<Rightarrow> (string, json) dict \<Rightarrow> audit_log \<Rightarrow>
     (audit_entry \<times> audit_log) result" where
  "append_entry sha to_float now event payload log =
     (let seq = int (length log);
          prev_hash = (if log = [] then GENESIS else a_entry_hash (last log)) in
      ebind (entry_time to_float now payload) (\<lambda>recorded_at.
        let frozen = AList.delete ''recorded_at'' payload;
            entry = \<lparr>a_seq = seq, a_event = event, a_payload = frozen, a_recorded_at = recorded_at,
                     a_prev_hash = prev_hash,
                     a_entry_hash = entry_hash sha seq event frozen recorded_at prev_hash\<rparr>
        in Inr (entry, log @ [entry])))"

text \<open>The loop of \<open>verify_chain\<close>, at index \<open>idx\<close> with the previous hash \<open>prev\<close>.\<close>

fun verify_from :: "(string \<Rightarrow> string) \<Rightarrow> int \<Rightarrow> string \<Rightarrow> audit_log \<Rightarrow> bool" where
  "verify_from sha idx prev [] = True"
| "verify_from sha idx prev (e # es) =
     (if a_seq e \<noteq> idx then False
      else if a_prev_hash e \<noteq> prev then False
      else if a_entry_hash e \<noteq>
        entry_hash sha (a_seq e) (a_event e) (a_payload e) (a_recorded_at e) (a_prev_hash e) then False
      else verify_from sha (idx + 1) (a_entry_hash e) es)"

definition verify_chain :: "(string \<Rightarrow> string) \<Rightarrow> audit_log \<Rightarrow> bool" where
  "verify_chain sha log = verify_from sha 0 GENESIS log"

definition record_capability_denial ::
  "(string \<Rightarrow> string) \<Rightarrow> (json \<Rightarrow> string result) \<Rightarrow> string \<Rightarrow> profile \<Rightarrow> raw_sql_capability \<Rightarrow> string option \<Rightarrow>
     audit_log \<Rightarrow> (audit_entry \<times> audit_log) result" where
  "record_capability_denial sha to_float now profile cap reason log =
     append_entry sha to_float now ''capability.denied''
       [(''profile'', JStr (profile_value profile)), (''capability'', JStr (cap_value cap)),
        (''reason'', JStr (case reason of None \<Rightarrow> ''profile_denied''
           | Some r \<Rightarrow> if r = [] then ''profile_denied'' else r))] log"

section \<open>Redaction\<close>

definition quote_char :: char where
  "quote_char = CHR 0x27"

text \<open>\<open>(?i)(key\s*=\s*)'[^']*'\<close> with its first group, which is all but the last three items.\<close>

definition secret_pat :: "string \<Rightarrow> re_pat" where
  "secret_pat key = lit_ci key @ [Star is_space] @ lit ''='' @ [Star is_space] @
     [One (\<lambda>c. c = quote_char), Star (\<lambda>c. c \<noteq> quote_char), One (\<lambda>c. c = quote_char)]"

definition secret_repl :: "string \<Rightarrow> string list \<Rightarrow> string" where
  "secret_repl key gs = concat (take (length key + 3) gs) @ [quote_char] @ ''[REDACTED]'' @ [quote_char]"

text \<open>\<open>[A-Za-z0-9._~+/=-]\<close> and \<open>[A-Za-z0-9_-]\<close>\<close>

definition token_char :: "char \<Rightarrow> bool" where
  "token_char c \<longleftrightarrow> is_upper_ascii c \<or> is_lower_ascii c \<or> is_decimal c \<or> c \<in> set ''._~+/=-''"

definition jwt_char :: "char \<Rightarrow> bool" where
  "jwt_char c \<longleftrightarrow> is_upper_ascii c \<or> is_lower_ascii c \<or> is_decimal c \<or> c \<in> set ''_-''"

definition bearer_pat :: re_pat where
  "bearer_pat = lit_ci ''bearer'' @ [Plus is_space, Plus token_char]"

definition jwt_pat :: re_pat where
  "jwt_pat = lit ''eyJ'' @ [Plus jwt_char] @ lit ''.'' @ [Plus jwt_char] @ lit ''.'' @ [Plus jwt_char]"

definition REDACT_PATTERNS :: "(re_pat \<times> (string list \<Rightarrow> string)) list" where
  "REDACT_PATTERNS = [
     (secret_pat ''password'', secret_repl ''password''),
     (secret_pat ''api_key'', secret_repl ''api_key''),
     (bearer_pat, \<lambda>_. ''Bearer [REDACTED]''),
     (jwt_pat, \<lambda>_. ''[REDACTED_JWT]'')]"

definition redact_query_log :: "string \<Rightarrow> string" where
  "redact_query_log line = foldl (\<lambda>out (pattern, repl). re_sub pattern repl out) line REDACT_PATTERNS"

end
