(* ===== verification/Audit_Chain.thy ===== *)
theory Audit_Chain
  imports Liorm_Audit
begin

text \<open>
  Integrity of the audit log: what a verified chain is, that \<open>append\<close> keeps it, and that a log
  with the same last hash is the same log unless the hash function has a collision. The chain
  argument is made once, in the locale \<open>hash_chain\<close>, for any entries whose hashed text carries
  their sequence number and the previous hash.
\<close>

section \<open>Hash chains\<close>

fun linked :: "('t \<Rightarrow> 'h) \<Rightarrow> ('e \<Rightarrow> 't) \<Rightarrow> ('e \<Rightarrow> 'h) \<Rightarrow> ('e \<Rightarrow> 'h) \<Rightarrow> ('e \<Rightarrow> int) \<Rightarrow> int \<Rightarrow> 'h \<Rightarrow> 'e list \<Rightarrow> bool" where
  "linked digest body stored prev seq k p [] \<longleftrightarrow> True"
| "linked digest body stored prev seq k p (e # es) \<longleftrightarrow>
     seq e = k \<and> prev e = p \<and> stored e = digest (body e) \<and>
     linked digest body stored prev seq (k + 1) (stored e) es"

definition last_hash :: "('e \<Rightarrow> 'h) \<Rightarrow> 'h \<Rightarrow> 'e list \<Rightarrow> 'h" where
  "last_hash stored p es = (if es = [] then p else stored (last es))"

lemma last_hash_simps [simp]:
  "last_hash stored p [] = p" "last_hash stored p (e # es) = last_hash stored (stored e) es"
  "last_hash stored p (es @ [e]) = stored e"
  by (simp_all add: last_hash_def)

definition collides :: "('t \<Rightarrow> 'h) \<Rightarrow> ('e \<Rightarrow> 't) \<Rightarrow> 'e list \<Rightarrow> 'e list \<Rightarrow> bool" where
  "collides digest body es es' \<longleftrightarrow>
     (\<exists>e\<in>set es. \<exists>e'\<in>set es'. body e \<noteq> body e' \<and> digest (body e) = digest (body e'))"

lemma linked_snoc:
  "linked digest body stored prev seq k p (es @ [e]) \<longleftrightarrow>
     linked digest body stored prev seq k p es \<and> seq e = k + int (length es) \<and>
     prev e = last_hash stored p es \<and> stored e = digest (body e)"
  by (induction es arbitrary: k p) (auto simp: algebra_simps)

lemma linked_take: "linked digest body stored prev seq k p es \<Longrightarrow> linked digest body stored prev seq k p (take n es)"
  by (induction es arbitrary: k p n) (auto simp: take_Cons split: nat.split)

lemma linked_nth:
  "linked digest body stored prev seq k p es \<longleftrightarrow>
     (\<forall>i<length es. seq (es ! i) = k + int i \<and> stored (es ! i) = digest (body (es ! i)) \<and>
        prev (es ! i) = (if i = 0 then p else stored (es ! (i - 1))))"
proof (induction es arbitrary: k p)
  case (Cons e es)
  have k: "k + int (Suc i) = k + 1 + int i" for i by simp
  show ?case
    unfolding linked.simps Cons.IH length_Cons All_less_Suc2 nth_Cons_0 nth_Cons_Suc k
    by (auto simp: nth_Cons')
qed simp

locale hash_chain =
  fixes digest :: "'t \<Rightarrow> 'h" and body :: "'e \<Rightarrow> 't" and stored prev :: "'e \<Rightarrow> 'h" and seq :: "'e \<Rightarrow> int"
    and ok :: "'e \<Rightarrow> bool" and view :: "'e \<Rightarrow> 'v"
  assumes body_view: "ok e \<Longrightarrow> ok e' \<Longrightarrow> body e = body e' \<Longrightarrow> view e = view e'"
    and view_prev: "view e = view e' \<Longrightarrow> prev e = prev e'"
    and view_seq: "view e = view e' \<Longrightarrow> seq e = seq e'"
begin

lemma last_entry:
  assumes "stored e = digest (body e)" "stored e' = digest (body e')" "stored e = stored e'"
    and "ok e" "ok e'" "\<not> collides digest body (es @ [e]) (es' @ [e'])"
  shows "view e = view e'"
proof -
  have "body e = body e'"
  proof (rule ccontr)
    assume "body e \<noteq> body e'"
    moreover have "digest (body e) = digest (body e')"
      using assms(1-3) by simp
    ultimately have "collides digest body (es @ [e]) (es' @ [e'])"
      unfolding collides_def by (intro bexI [of _ e] bexI [of _ e']) simp_all
    with assms(6) show False ..
  qed
  with assms(4,5) show ?thesis by (rule body_view)
qed

text \<open>Two chains that end in the same hash have the same entries, or show a collision.\<close>

lemma same_end:
  assumes "linked digest body stored prev seq k p es" "linked digest body stored prev seq k p es'"
    and "list_all ok es" "list_all ok es'" "es \<noteq> []" "es' \<noteq> []" "stored (last es) = stored (last es')"
  shows "map view es = map view es' \<or> collides digest body es es'"
  using assms
proof (induction es arbitrary: es' rule: rev_induct)
  case (snoc e es)
  obtain fs f where es': "es' = fs @ [f]"
    using snoc.prems(6) by (cases es' rule: rev_cases) auto
  note pre = snoc.prems[unfolded es', simplified linked_snoc list_all_append]
  show ?case
  proof (rule disjCI)
    assume no: "\<not> collides digest body (es @ [e]) es'"
    then have view: "view e = view f"
      unfolding es' by (intro last_entry) (use pre in auto)
    then have len: "length es = length fs"
      using pre view_seq [OF view] by simp
    have "map view es = map view fs"
    proof (cases "es = []")
      case False
      have "last_hash stored p es = last_hash stored p fs"
        using pre view_prev [OF view] by simp
      moreover have "fs \<noteq> []" using False len by auto
      ultimately have "stored (last es) = stored (last fs)"
        using False by (simp add: last_hash_def)
      then have "map view es = map view fs \<or> collides digest body es fs"
        using pre False \<open>fs \<noteq> []\<close> by (intro snoc.IH) auto
      with no show ?thesis by (auto simp: collides_def es')
    qed (use len in simp)
    with view show "map view (es @ [e]) = map view es'"
      by (simp add: es')
  qed
qed simp

end

section \<open>The audit log is a hash chain\<close>

definition audit_view :: "audit_entry \<Rightarrow> json" where
  "audit_view e = sort_keys
     (entry_body (a_seq e) (a_event e) (a_payload e) (a_recorded_at e) (a_prev_hash e))"

definition audit_text :: "audit_entry \<Rightarrow> string" where
  "audit_text e = dumps '','' '':'' (audit_view e)"

definition audit_entry_ok :: "audit_entry \<Rightarrow> bool" where
  "audit_entry_ok e \<longleftrightarrow> float_repr (a_recorded_at e) \<and> json_ok (JObj (a_payload e))"

lemma sort_entry_body:
  "sort_keys (entry_body s ev pl t p) =
     JObj [(''event'', JStr ev), (''payload'', sort_keys (JObj pl)), (''prev_hash'', JStr p),
           (''recorded_at'', JFloat t), (''seq'', JInt s)]"
  by (simp add: entry_body_def)

interpretation audit: hash_chain sha audit_text a_entry_hash a_prev_hash a_seq audit_entry_ok audit_view
  for sha :: "string \<Rightarrow> string"
proof
  fix e e'
  assume ok: "audit_entry_ok e" "audit_entry_ok e'" and eq: "audit_text e = audit_text e'"
  have "json_ok (audit_view e)" if "audit_entry_ok e" for e
    using that unfolding audit_view_def json_ok_sort_keys by (simp add: audit_entry_ok_def entry_body_def)
  with ok eq show "audit_view e = audit_view e'"
    unfolding audit_text_def by (simp add: compact_json.inj)
qed (simp_all add: audit_view_def sort_entry_body)

abbreviation audit_linked :: "(string \<Rightarrow> string) \<Rightarrow> int \<Rightarrow> string \<Rightarrow> audit_log \<Rightarrow> bool" where
  "audit_linked sha \<equiv> linked sha audit_text a_entry_hash a_prev_hash a_seq"

lemma verify_from_linked: "verify_from sha k p es \<longleftrightarrow> audit_linked sha k p es"
  by (induction es arbitrary: k p) (auto simp: entry_hash_def audit_text_def audit_view_def)

lemma verify_chain_linked: "verify_chain sha log \<longleftrightarrow> audit_linked sha 0 GENESIS log"
  by (simp add: verify_chain_def verify_from_linked)

section \<open>Appending\<close>

lemma append_entry_Inr:
  assumes "append_entry sha to_float now event payload log = Inr (e, log')"
  shows "log' = log @ [e]" "a_seq e = int (length log)" "a_event e = event"
    "a_payload e = AList.delete ''recorded_at'' payload"
    "a_prev_hash e = last_hash a_entry_hash GENESIS log"
    "a_entry_hash e = sha (audit_text e)"
    "entry_time to_float now payload = Inr (a_recorded_at e)"
  using assms
  by (auto simp: append_entry_def Let_def ebind_eq_Inr last_hash_def entry_hash_def audit_text_def audit_view_def)

lemma append_verifies:
  assumes "append_entry sha to_float now event payload log = Inr (e, log')" "verify_chain sha log"
  shows "verify_chain sha log'"
  using append_entry_Inr [OF assms(1)] assms(2) by (simp add: verify_chain_linked linked_snoc)

text \<open>The logs a program can build: from the empty log by \<open>append\<close>, any clock, any payloads.\<close>

inductive audit_reachable :: "(string \<Rightarrow> string) \<Rightarrow> (json \<Rightarrow> string result) \<Rightarrow> audit_log \<Rightarrow> bool"
  for sha to_float where
  empty: "audit_reachable sha to_float []"
| append: "audit_reachable sha to_float log \<Longrightarrow>
    append_entry sha to_float now event payload log = Inr (e, log') \<Longrightarrow> audit_reachable sha to_float log'"

lemma reachable_verifies: "audit_reachable sha to_float log \<Longrightarrow> verify_chain sha log"
proof (induction rule: audit_reachable.induct)
  case empty
  show ?case by (simp add: verify_chain_def)
next
  case (append log now event payload e log')
  from append.hyps(2) append.IH show ?case by (rule append_verifies)
qed

lemma append_total:
  "append_entry sha to_float now event payload log = Inl x \<longleftrightarrow>
     (\<exists>v. map_of payload ''recorded_at'' = Some v \<and> v \<noteq> JNull \<and> to_float v = Inl x)"
proof -
  have "append_entry sha to_float now event payload log = Inl x \<longleftrightarrow> entry_time to_float now payload = Inl x"
    by (simp add: append_entry_def Let_def ebind_eq_Inl)
  also have "\<dots> \<longleftrightarrow> (\<exists>v. map_of payload ''recorded_at'' = Some v \<and> v \<noteq> JNull \<and> to_float v = Inl x)"
  proof (cases "map_of payload ''recorded_at''")
    case (Some v)
    then show ?thesis by (cases v) (simp_all add: entry_time_def)
  qed (simp add: entry_time_def)
  finally show ?thesis .
qed

text \<open>A history of appends: each later log extends the earlier ones.\<close>

fun append_all :: "(string \<Rightarrow> string) \<Rightarrow> (json \<Rightarrow> string result) \<Rightarrow>
    (string \<times> string \<times> (string, json) dict) list \<Rightarrow> audit_log \<Rightarrow> audit_log result" where
  "append_all sha to_float [] log = Inr log"
| "append_all sha to_float ((now, event, payload) # ops) log =
     ebind (append_entry sha to_float now event payload log) (\<lambda>(e, log'). append_all sha to_float ops log')"

lemma append_all_extends:
  "append_all sha to_float ops log = Inr log' \<Longrightarrow>
     \<exists>es. log' = log @ es \<and> map a_event es = map (\<lambda>(now, event, payload). event) ops \<and>
       (verify_chain sha log \<longrightarrow> verify_chain sha log')"
proof (induction ops arbitrary: log)
  case (Cons op ops)
  obtain now event payload where op: "op = (now, event, payload)" by (cases op)
  with Cons.prems obtain e log1 where e: "append_entry sha to_float now event payload log = Inr (e, log1)"
    and rest: "append_all sha to_float ops log1 = Inr log'"
    by (auto simp: ebind_eq_Inr)
  note ap = append_entry_Inr [OF e]
  from Cons.IH [OF rest] obtain es where es: "log' = log1 @ es"
    "map a_event es = map (\<lambda>(now, event, payload). event) ops" "verify_chain sha log1 \<longrightarrow> verify_chain sha log'"
    by blast
  show ?case
    using es ap append_verifies [OF e] op by (intro exI [of _ "e # es"]) auto
qed simp

end
