(* ===== verification/Audit_Redact.thy ===== *)
theory Audit_Redact
  imports Liorm_Audit
begin

text \<open>
  What \<open>redact_query_log\<close> guarantees. Each of the four patterns is an interpretation of
  \<open>headed_pattern\<close>; a quoted secret and a bearer token have no influence on the result; and
  no JSON web token is left, which is shown once for every pattern whose replacement starts
  with a character the pattern cannot consume (the locale \<open>scrub_pattern\<close>).
\<close>

section \<open>The patterns\<close>

definition ci :: "char \<Rightarrow> char \<Rightarrow> bool" where
  "ci k c \<longleftrightarrow> lower_char c = k"

lemma lit_ci_Cons: "lit_ci (k # w) = One (ci k) # lit_ci w"
  by (simp add: lit_ci_def ci_def fun_eq_iff)

lemma lit_ci_Nil [simp]: "lit_ci [] = []"
  by (simp add: lit_ci_def)

interpretation password_re: headed_pattern "secret_pat ''password''" "ci (CHR ''p'')"
  by unfold_locales (simp add: secret_pat_def lit_ci_Cons)

interpretation api_key_re: headed_pattern "secret_pat ''api_key''" "ci (CHR ''a'')"
  by unfold_locales (simp add: secret_pat_def lit_ci_Cons)

interpretation bearer_re: headed_pattern bearer_pat "ci (CHR ''b'')"
  by unfold_locales (simp add: bearer_pat_def lit_ci_Cons)

interpretation jwt_re: headed_pattern jwt_pat "\<lambda>c. c = CHR ''e''"
  by unfold_locales (simp add: jwt_pat_def lit_def)

section \<open>Scrubbing\<close>

text \<open>The characters an item can consume; a pattern without \<open>Eos\<close> consumes only these.\<close>

fun item_class :: "re_item \<Rightarrow> char \<Rightarrow> bool" where
  "item_class (One p) = p"
| "item_class (Star p) = p"
| "item_class (Plus p) = p"
| "item_class Eos = (\<lambda>_. False)"

definition no_eos :: "re_pat \<Rightarrow> bool" where
  "no_eos p \<longleftrightarrow> Eos \<notin> set p"

lemma splits_as_chars:
  "splits_as p gs u \<Longrightarrow> \<forall>it\<in>set p. \<not> item_class it c \<Longrightarrow> c \<notin> set (concat gs)"
  by (induction p gs u rule: splits_as.induct) (auto split: list.splits simp: list_all_iff)

lemma splits_as_any_rest: "splits_as p gs u \<Longrightarrow> no_eos p \<Longrightarrow> splits_as p gs v"
  by (induction p gs u rule: splits_as.induct) (auto simp: no_eos_def)

text \<open>A constant replacement that starts with a character outside all classes of the pattern,
  and in which no match can start.\<close>

locale scrub_pattern = headed_pattern +
  fixes rep :: string and bar :: char
  assumes no_eos: "no_eos pat"
    and barrier: "\<forall>it\<in>set pat. \<not> item_class it bar"
    and rep_bar: "\<exists>w. rep = bar # w"
    and rep_no_head: "list_all (\<lambda>c. \<not> h c) rep"
begin

text \<open>A part of the output without the barrier is a part of the input.\<close>

lemma output_prefix:
  "x @ y = re_sub pat (\<lambda>_. rep) s \<Longrightarrow> bar \<notin> set x \<Longrightarrow> \<exists>y'. s = x @ y'"
proof (induction s arbitrary: x y rule: length_induct)
  case (1 s)
  show ?case
  proof (cases x)
    case (Cons a x')
    then have "s \<noteq> []" using 1(2) by (auto simp: sub_Nil)
    then obtain c t where s: "s = c # t" by (cases s) auto
    show ?thesis
    proof (cases "re_match pat s")
      case None
      then have out: "re_sub pat (\<lambda>_. rep) s = c # re_sub pat (\<lambda>_. rep) t"
        using s by (simp add: sub_step)
      then have "a = c" "x' @ y = re_sub pat (\<lambda>_. rep) t"
        using 1(2) Cons by auto
      moreover have "\<exists>y'. t = x' @ y'"
        using 1(1,3) s Cons calculation(2) by auto
      ultimately show ?thesis using s Cons by auto
    next
      case (Some m)
      then have "re_sub pat (\<lambda>_. rep) s = rep @ re_sub pat (\<lambda>_. rep) (snd m)"
        using sub_match [of s "fst m" "snd m"] by simp
      then have "a = bar" using 1(2) Cons rep_bar by auto
      then show ?thesis using 1(3) Cons by simp
    qed
  qed simp
qed

lemma no_match_in_output: "re_match pat (re_sub pat (\<lambda>_. rep) s) = None"
proof (rule ccontr)
  assume "re_match pat (re_sub pat (\<lambda>_. rep) s) \<noteq> None"
  then obtain gs u where out: "re_sub pat (\<lambda>_. rep) s = concat gs @ u" and sp: "splits_as pat gs u"
    unfolding re_match_iff_split by blast
  have "bar \<notin> set (concat gs)"
    using splits_as_chars [OF sp barrier] .
  then obtain y where y: "s = concat gs @ y"
    using output_prefix [of "concat gs" u s] out by auto
  then have "re_match pat s \<noteq> None"
    using re_match_complete [OF splits_as_any_rest [OF sp no_eos, of y]] by simp
  then obtain m where "re_match pat s = Some m" by blast
  then have "re_sub pat (\<lambda>_. rep) s = rep @ re_sub pat (\<lambda>_. rep) (snd m)"
    using sub_match [of s "fst m" "snd m"] by simp
  moreover have "concat gs \<noteq> []"
  proof -
    obtain r where "pat = One h # r" using head by blast
    with sp show ?thesis by (cases gs) (auto split: list.splits)
  qed
  ultimately have "bar \<in> set (concat gs)"
    using rep_bar out by (cases "concat gs") auto
  with \<open>bar \<notin> set (concat gs)\<close> show False ..
qed

lemma search_rep: "\<not> re_search pat s \<Longrightarrow> list_all (\<lambda>c. \<not> h c) w \<Longrightarrow> \<not> re_search pat (w @ s)"
  by (induction w) (auto simp: no_head)

text \<open>Nothing is left: the output has no match anywhere.\<close>

theorem scrubbed: "\<not> re_search pat (re_sub pat (\<lambda>_. rep) s)"
proof (induction s rule: length_induct)
  case (1 s)
  show ?case
  proof (cases s)
    case Nil
    then show ?thesis by (simp add: sub_Nil no_match_Nil)
  next
    case (Cons c t)
    show ?thesis
    proof (cases "re_match pat s")
      case None
      have "re_sub pat (\<lambda>_. rep) s = c # re_sub pat (\<lambda>_. rep) t"
        using Cons None by (simp add: sub_step)
      then show ?thesis
        using 1 Cons no_match_in_output [of s] by simp
    next
      case (Some m)
      then have "length (snd m) < length s"
        using consumes [of s "fst m" "snd m"] by simp
      then have "\<not> re_search pat (rep @ re_sub pat (\<lambda>_. rep) (snd m))"
        using 1 rep_no_head by (intro search_rep) auto
      then show ?thesis
        using sub_match [of s "fst m" "snd m"] Some by simp
    qed
  qed
qed

end

interpretation jwt_scrub: scrub_pattern jwt_pat "\<lambda>c. c = CHR ''e''" "''[REDACTED_JWT]''" "CHR ''[''"
proof
  have "\<not> jwt_char (CHR ''['')" by code_simp
  then show "\<forall>it\<in>set jwt_pat. \<not> item_class it (CHR ''['')"
    by (simp add: jwt_pat_def lit_def)
qed (simp_all add: jwt_pat_def lit_def no_eos_def)

lemma redact_unfold:
  "redact_query_log line =
     re_sub jwt_pat (\<lambda>_. ''[REDACTED_JWT]'')
       (re_sub bearer_pat (\<lambda>_. ''Bearer [REDACTED]'')
         (re_sub (secret_pat ''api_key'') (secret_repl ''api_key'')
           (re_sub (secret_pat ''password'') (secret_repl ''password'') line)))"
  by (simp add: redact_query_log_def REDACT_PATTERNS_def)

lemma redact_no_jwt: "\<not> re_search jwt_pat (redact_query_log line)"
  unfolding redact_unfold by (rule jwt_scrub.scrubbed)

section \<open>Quoted secrets\<close>

lemma ident_char_lower: "ident_char (lower_char c) \<Longrightarrow> ident_char c"
proof (cases "192 \<le> ord c \<and> ord c \<le> 222 \<and> ord c \<noteq> 215")
  case True
  then have "ord (lower_char c) = ord c + 32"
    by (simp add: lower_char_def ord_char_of)
  moreover assume "ident_char (lower_char c)"
  ultimately show ?thesis using True by (simp add: char_class_defs)
next
  case False
  then show "ident_char (lower_char c) \<Longrightarrow> ident_char c"
    by (auto simp: lower_char_def is_upper_ascii_def ident_char_def ident_start_def split: if_splits)
qed

lemma lower_key: "lower kw = key \<Longrightarrow> list_all ident_char key \<Longrightarrow> list_all ident_char kw"
  by (auto simp: lower_def list_all_iff ident_char_lower)

lemma re_match_lit_ci:
  "lower kw = key \<Longrightarrow> re_match (lit_ci key @ r) (kw @ s) =
     map_option (\<lambda>(gs, u). (map (\<lambda>c. [c]) kw @ gs, u)) (re_match r s)"
proof (induction kw arbitrary: key)
  case Nil
  then show ?case by (cases "re_match r s") (auto simp: lower_def)
next
  case (Cons c kw)
  then have "key = lower_char c # lower kw" by (simp add: lower_def)
  with Cons.IH [of "lower kw"] show ?case
    by (cases "re_match r s") (auto simp: lit_ci_Cons ci_def)
qed

lemma splits_lit_ci:
  "splits_as (lit_ci key @ r) gs u \<Longrightarrow>
     \<exists>kw gs'. gs = map (\<lambda>c. [c]) kw @ gs' \<and> lower kw = key \<and> splits_as r gs' u"
proof (induction key arbitrary: gs)
  case (Cons k key)
  then obtain c gs1 where gs: "gs = [c] # gs1" "lower_char c = k" "splits_as (lit_ci key @ r) gs1 u"
    by (cases gs) (auto simp: lit_ci_Cons ci_def split: list.splits)
  from Cons.IH [OF gs(3)] obtain kw gs' where "gs1 = map (\<lambda>c. [c]) kw @ gs'" "lower kw = key" "splits_as r gs' u"
    by blast
  with gs show ?case
    by (intro exI [of _ "c # kw"]) (auto simp: lower_def)
qed (auto simp: lower_def intro: exI [of _ "[]"])

text \<open>A pattern that begins with a key matches only where the key is, and a key that has no border
  (\<open>borderless\<close>) cannot begin before an occurrence of the key and end in it.\<close>

lemma match_key_prefix:
  assumes "re_match (lit_ci key @ r) s \<noteq> None"
  shows "prefix key (lower s)"
proof -
  obtain gs u where s: "s = concat gs @ u" "splits_as (lit_ci key @ r) gs u"
    using assms unfolding re_match_iff_split by blast
  from splits_lit_ci [OF s(2)] obtain kw gs' where "gs = map (\<lambda>c. [c]) kw @ gs'" "lower kw = key"
    by blast
  moreover have "concat (map (\<lambda>c. [c]) w) = w" for w :: string
    by (induction w) auto
  ultimately have "lower s = key @ lower (concat gs' @ u)"
    using s(1) by (simp add: lower_def)
  then show ?thesis by (rule prefixI)
qed

definition borderless :: "string \<Rightarrow> bool" where
  "borderless key \<longleftrightarrow> list_all (\<lambda>k. \<not> prefix (drop k key) key) [1..<length key]"

lemma borderless_keys: "borderless ''password''" "borderless ''api_key''" "borderless ''bearer''"
  by code_simp+

lemma no_match_before_key:
  assumes kw: "lower kw = key" and key: "borderless key" and b: "b \<noteq> []" "\<not> in_str key (lower b)"
  shows "re_match (lit_ci key @ r) (b @ kw @ rest) = None"
proof (rule ccontr)
  assume "re_match (lit_ci key @ r) (b @ kw @ rest) \<noteq> None"
  from match_key_prefix [OF this] have pre: "prefix key (lower b @ key @ lower rest)"
    using kw by (simp add: lower_def)
  show False
  proof (cases "length key \<le> length (lower b)")
    case True
    then have "prefix key (lower b)"
      using pre prefix_length_prefix [of key "lower b @ key @ lower rest" "lower b"] by simp
    with b(2) show False by (simp add: in_str_def prefix_imp_sublist)
  next
    case False
    then have "prefix (lower b) key"
      using pre prefix_length_prefix [of "lower b" "lower b @ key @ lower rest" key] by simp
    then obtain z where z: "key = lower b @ z" by (rule prefixE)
    then have "prefix z (key @ lower rest)" using pre by simp
    then have "prefix z key"
      using z prefix_length_prefix [of z "key @ lower rest" key] by simp
    moreover have "drop (length (lower b)) key = z" by (simp add: z)
    moreover have "length (lower b) \<in> set [1..<length key]"
      using b(1) False by (auto simp: lower_def Suc_le_eq)
    ultimately show False using key by (auto simp: borderless_def list_all_iff)
  qed
qed

lemma no_key_part: "\<not> in_str key (lower (a @ b)) \<Longrightarrow> \<not> in_str key (lower b)"
  by (auto simp: in_str_def lower_def sublist_append)

text \<open>An assignment \<open>key = '...'\<close>: the key in any case, blanks around the equals sign.\<close>

definition secret_head :: "string \<Rightarrow> string \<Rightarrow> string \<Rightarrow> string" where
  "secret_head kw sp1 sp2 = kw @ sp1 @ CHR ''='' # sp2"

definition blank :: "string \<Rightarrow> bool" where
  "blank w \<longleftrightarrow> list_all is_space w"

lemma not_space_punct [simp]: "\<not> is_space (CHR ''='')" "\<not> is_space quote_char" "\<not> ident_char (CHR ''='')"
    "\<not> ident_char quote_char" "quote_char \<noteq> CHR ''=''" "CHR ''='' \<noteq> quote_char"
  by code_simp+

lemma secret_match:
  assumes "lower kw = key" "list_all ident_char key" "blank sp1" "blank sp2" "quote_char \<notin> set s"
  shows "re_match (secret_pat key) (secret_head kw sp1 sp2 @ quote_char # s @ quote_char # post) =
    Some (map (\<lambda>c. [c]) kw @ [sp1, ''='', sp2, [quote_char], s, [quote_char]], post)"
proof -
  let ?q = "One (\<lambda>c. c = quote_char)" and ?b = "Star (\<lambda>c. c \<noteq> quote_char)"
  have body: "re_match [?b, ?q] (s @ quote_char # post) = Some ([s, [quote_char]], post)"
    by (rule re_match_Star_run) (use assms(5) in \<open>auto simp: list_all_iff\<close>)
  have sp2: "re_match (Star is_space # [?q, ?b, ?q]) (sp2 @ quote_char # s @ quote_char # post) =
      Some (sp2 # [quote_char] # [s, [quote_char]], post)"
    by (rule re_match_Star_run) (use body assms(4) in \<open>auto simp: blank_def\<close>)
  have sp1: "re_match (Star is_space # lit ''='' @ Star is_space # [?q, ?b, ?q])
      (sp1 @ CHR ''='' # sp2 @ quote_char # s @ quote_char # post) =
      Some (sp1 # ''='' # sp2 # [quote_char] # [s, [quote_char]], post)"
    by (rule re_match_Star_run) (use sp2 assms(3) in \<open>auto simp: blank_def lit_def\<close>)
  then show ?thesis
    using assms(1) by (simp add: secret_pat_def secret_head_def re_match_lit_ci)
qed

text \<open>No match starts earlier, if no quote does.\<close>

lemma split_last_blank:
  assumes "a @ sp = b @ sp'" "blank sp" "blank sp'" "a \<noteq> []" "b \<noteq> []" "\<not> is_space (last a)" "\<not> is_space (last b)"
  shows "a = b"
proof -
  have strip: "rev (dropWhile is_space (rev (w @ t))) = w" if "blank t" "w \<noteq> []" "\<not> is_space (last w)" for w t
  proof -
    have "dropWhile is_space (rev t @ rev w) = dropWhile is_space (rev w)"
      by (rule dropWhile_append2) (use that(1) in \<open>auto simp: blank_def list_all_iff\<close>)
    also have "\<dots> = rev w"
      by (rule dropWhile_none) (use that(2,3) in \<open>auto simp: hd_rev\<close>)
    finally show ?thesis by simp
  qed
  from strip [OF assms(2,4,6)] strip [OF assms(3,5,7)] assms(1) show ?thesis by simp
qed

lemma secret_head_unique:
  assumes eq: "b @ secret_head kw sp1 sp2 = secret_head kw' g1 g2"
    and ids: "list_all ident_char kw" "list_all ident_char kw'" "length kw' = length kw" "kw \<noteq> []"
    and blanks: "blank sp1" "blank sp2" "blank g1" "blank g2"
  shows "b = []"
proof -
  have noeq: "CHR ''='' \<notin> set w" if "blank w" for w
    using that by (auto simp: blank_def list_all_iff)
  have noeq': "CHR ''='' \<notin> set w" if "list_all ident_char w" for w
    using that by (auto simp: list_all_iff)
  have split: "b @ kw @ sp1 = kw' @ g1"
  proof -
    have "count_list (b @ secret_head kw sp1 sp2) (CHR ''='') = count_list (secret_head kw' g1 g2) (CHR ''='')"
      using eq by simp
    then have "CHR ''='' \<notin> set b"
      using noeq [OF blanks(1)] noeq [OF blanks(2)] noeq [OF blanks(3)] noeq [OF blanks(4)]
        noeq' [OF ids(1)] noeq' [OF ids(2)]
      by (simp add: secret_head_def count_list_0_iff)
    then have "takeWhile (\<lambda>c. c \<noteq> CHR ''='') ((b @ kw @ sp1) @ CHR ''='' # sp2) = b @ kw @ sp1"
      using noeq [OF blanks(1)] noeq' [OF ids(1)] by (intro takeWhile_stop) auto
    moreover have "takeWhile (\<lambda>c. c \<noteq> CHR ''='') ((kw' @ g1) @ CHR ''='' # g2) = kw' @ g1"
      using noeq [OF blanks(3)] noeq' [OF ids(2)] by (intro takeWhile_stop) auto
    ultimately show ?thesis
      using eq by (simp add: secret_head_def)
  qed
  have last: "\<not> is_space (last w)" if "list_all ident_char w" "w \<noteq> []" for w
    using that by (simp add: list_all_iff)
  have "b @ kw = kw'"
  proof (rule split_last_blank)
    show "(b @ kw) @ sp1 = kw' @ g1" using split by simp
    show "kw' \<noteq> []" using ids by auto
    then show "\<not> is_space (last kw')" by (rule last [OF ids(2)])
  qed (use ids blanks last in auto)
  with ids(3) show ?thesis by (metis append_Nil append_same_eq length_append add_cancel_left_left length_0_conv)
qed

lemma secret_no_match_before:
  assumes kw: "lower kw = key" "list_all ident_char key" "key \<noteq> []" and blanks: "blank sp1" "blank sp2"
    and b: "b \<noteq> []" "quote_char \<notin> set b"
  shows "re_match (secret_pat key) (b @ secret_head kw sp1 sp2 @ quote_char # rest) = None"
proof (rule ccontr)
  let ?q = "One (\<lambda>c. c = quote_char)" and ?s = "Star (\<lambda>c. c \<noteq> quote_char)"
  assume "re_match (secret_pat key) (b @ secret_head kw sp1 sp2 @ quote_char # rest) \<noteq> None"
  then obtain gs u where eq: "b @ secret_head kw sp1 sp2 @ quote_char # rest = concat gs @ u"
    and sp: "splits_as (secret_pat key) gs u"
    unfolding re_match_iff_split by blast
  from sp obtain kw' gs1 where gs: "gs = map (\<lambda>c. [c]) kw' @ gs1" "lower kw' = key"
    and sp1: "splits_as ([Star is_space] @ lit ''='' @ [Star is_space, ?q, ?s, ?q]) gs1 u"
    unfolding secret_pat_def by (auto dest: splits_lit_ci)
  from sp1 obtain g1 gs2 where gs1: "gs1 = g1 # gs2" "blank g1"
      "splits_as (One (\<lambda>x. x = CHR ''='') # [Star is_space, ?q, ?s, ?q]) gs2 u"
    by (cases gs1) (auto simp: lit_def blank_def)
  then obtain gs3 where gs2: "gs2 = ''='' # gs3" "splits_as [Star is_space, ?q, ?s, ?q] gs3 u"
    by (cases gs2) (auto split: list.splits)
  then obtain g2 gs4 where gs3: "gs3 = g2 # gs4" "blank g2" "splits_as [?q, ?s, ?q] gs4 u"
    by (cases gs3) (auto simp: blank_def)
  then obtain gs5 where gs4: "gs4 = [quote_char] # gs5"
    by (cases gs4) (auto split: list.splits)
  have conc: "concat (map (\<lambda>c. [c]) w) = w" for w :: string
    by (induction w) auto
  have line: "(b @ secret_head kw sp1 sp2) @ quote_char # rest = secret_head kw' g1 g2 @ quote_char # (concat gs5 @ u)"
    using eq by (simp add: gs gs1 gs2 gs3 gs4 conc secret_head_def)
  have ids: "list_all ident_char kw" "list_all ident_char kw'"
    using lower_key kw(1,2) gs(2) by auto
  have noq: "quote_char \<notin> set (secret_head w v1 v2)" if "list_all ident_char w" "blank v1" "blank v2" for w v1 v2
    using that by (auto simp: secret_head_def blank_def list_all_iff)
  have "takeWhile (\<lambda>c. c \<noteq> quote_char) ((b @ secret_head kw sp1 sp2) @ quote_char # rest) = b @ secret_head kw sp1 sp2"
    using b(2) noq [OF ids(1) blanks] by (intro takeWhile_stop) auto
  moreover have "takeWhile (\<lambda>c. c \<noteq> quote_char) (secret_head kw' g1 g2 @ quote_char # (concat gs5 @ u)) = secret_head kw' g1 g2"
    using noq [OF ids(2) gs1(2) gs3(2)] by (intro takeWhile_stop) auto
  ultimately have "b @ secret_head kw sp1 sp2 = secret_head kw' g1 g2"
    using line by simp
  moreover have "length kw' = length kw"
    using kw(1) gs(2) by (metis length_map lower_def)
  moreover have "kw \<noteq> []"
    using kw(1,3) by (auto simp: lower_def)
  ultimately have "b = []"
    by (rule secret_head_unique [OF _ ids _ _ blanks gs1(2) gs3(2)])
  with b(1) show False ..
qed

lemma secret_sub:
  assumes re: "re_pattern (secret_pat key)"
    and kw: "lower kw = key" "list_all ident_char key" "key \<noteq> []" and blanks: "blank sp1" "blank sp2"
    and pre: "quote_char \<notin> set pre \<or> borderless key \<and> \<not> in_str key (lower pre)" and s: "quote_char \<notin> set s"
  shows "re_sub (secret_pat key) (secret_repl key) (pre @ secret_head kw sp1 sp2 @ quote_char # s @ quote_char # post) =
    pre @ secret_head kw sp1 sp2 @ [quote_char] @ ''[REDACTED]'' @ [quote_char] @
    re_sub (secret_pat key) (secret_repl key) post"
proof -
  have len: "length key = length kw" using kw(1) by (auto simp: lower_def)
  have conc: "concat (map (\<lambda>c. [c]) w) = w" for w :: string
    by (induction w) auto
  have "re_sub (secret_pat key) (secret_repl key) (secret_head kw sp1 sp2 @ quote_char # s @ quote_char # post) =
      secret_head kw sp1 sp2 @ [quote_char] @ ''[REDACTED]'' @ [quote_char] @ re_sub (secret_pat key) (secret_repl key) post"
    unfolding re_pattern.sub_match [OF re secret_match [OF kw(1,2) blanks s]]
    by (simp add: secret_repl_def len conc secret_head_def)
  moreover have "re_sub (secret_pat key) (secret_repl key) (pre @ secret_head kw sp1 sp2 @ quote_char # s @ quote_char # post) =
      pre @ re_sub (secret_pat key) (secret_repl key) (secret_head kw sp1 sp2 @ quote_char # s @ quote_char # post)"
  proof (rule re_pattern.sub_skip [OF re])
    fix a b assume ab: "pre = a @ b" "b \<noteq> []"
    show "re_match (secret_pat key) (b @ secret_head kw sp1 sp2 @ quote_char # s @ quote_char # post) = None"
    proof (cases "quote_char \<in> set b")
      case False
      then show ?thesis by (rule secret_no_match_before [OF kw blanks ab(2)])
    next
      case True
      then have "borderless key" "\<not> in_str key (lower b)" using pre ab(1) no_key_part by auto
      then show ?thesis
        unfolding secret_pat_def secret_head_def append_assoc by (intro no_match_before_key [OF kw(1) _ ab(2)])
    qed
  qed
  ultimately show ?thesis by simp
qed

lemmas re_patterns = password_re.re_pattern_axioms api_key_re.re_pattern_axioms

lemma redact_password:
  assumes "lower kw = ''password''" "blank sp1" "blank sp2"
    and "quote_char \<notin> set pre \<or> \<not> in_str ''password'' (lower pre)" and "quote_char \<notin> set s" "quote_char \<notin> set s'"
  shows "redact_query_log (pre @ secret_head kw sp1 sp2 @ quote_char # s @ quote_char # post) =
    redact_query_log (pre @ secret_head kw sp1 sp2 @ quote_char # s' @ quote_char # post)"
proof -
  have "list_all ident_char ''password''" by code_simp
  then show ?thesis
    using assms borderless_keys(1) by (simp add: redact_unfold secret_sub [OF re_patterns(1)])
qed

text \<open>The condition on the text before the key is needed: a key and its quote before the key take
  the opening quote of the password for a closing one, and the password stays.\<close>

lemma password_leaks:
  "in_str ''hunter2'' (redact_query_log
     (''password='' @ quote_char # ''password='' @ quote_char # ''hunter2'' @ [quote_char]))"
  by code_simp

text \<open>For an API key, the first substitution must leave the text before it alone.\<close>

lemma no_key_no_match:
  assumes "\<not> in_str ''password'' (lower line)"
  shows "re_sub (secret_pat ''password'') f line = line"
proof (rule password_re.sub_id)
  have key: "prefix ''password'' (lower s)" if "re_match (secret_pat ''password'') s \<noteq> None" for s
    using match_key_prefix that unfolding secret_pat_def by blast
  show "\<not> re_search (secret_pat ''password'') line"
    using assms
  proof (induction line)
    case Nil
    then show ?case using password_re.no_match_Nil by simp
  next
    case (Cons c t)
    have "in_str ''password'' (lower t) \<Longrightarrow> in_str ''password'' (lower (c # t))"
      by (simp add: in_str_def lower_def sublist_Cons_right)
    moreover have "prefix ''password'' (lower (c # t)) \<Longrightarrow> in_str ''password'' (lower (c # t))"
      by (simp add: in_str_def)
    ultimately show ?case
      using Cons key [of "c # t"] by (auto simp del: not_None_eq)
  qed
qed

lemma redact_api_key:
  assumes "lower kw = ''api_key''" "blank sp1" "blank sp2" "quote_char \<notin> set pre"
    and "quote_char \<notin> set s" "quote_char \<notin> set s'"
    and "\<not> in_str ''password'' (lower (pre @ secret_head kw sp1 sp2 @ quote_char # s @ quote_char # post))"
    and "\<not> in_str ''password'' (lower (pre @ secret_head kw sp1 sp2 @ quote_char # s' @ quote_char # post))"
  shows "redact_query_log (pre @ secret_head kw sp1 sp2 @ quote_char # s @ quote_char # post) =
    redact_query_log (pre @ secret_head kw sp1 sp2 @ quote_char # s' @ quote_char # post)"
proof -
  have "list_all ident_char ''api_key''" by code_simp
  then show ?thesis
    using assms by (simp add: redact_unfold no_key_no_match secret_sub [OF re_patterns(2)])
qed

section \<open>Bearer tokens\<close>

lemma bearer_match:
  assumes "lower kw = ''bearer''" "blank sp" "sp \<noteq> []" "list_all token_char tok" "tok \<noteq> []"
    and "post = [] \<or> \<not> token_char (hd post)"
  shows "re_match bearer_pat (kw @ sp @ tok @ post) = Some (map (\<lambda>c. [c]) kw @ [sp, tok], post)"
proof -
  have tok: "re_match [Plus token_char] (tok @ post) = Some ([tok], post)"
    by (rule re_match_Plus_run) (use assms in auto)
  have "list_all (\<lambda>c. \<not> is_space c) ''._~+/=-''" by code_simp
  then have "c \<in> set ''._~+/=-'' \<Longrightarrow> \<not> is_space c" for c
    unfolding list_all_iff by blast
  moreover have "is_upper_ascii c \<or> is_lower_ascii c \<or> is_decimal c \<Longrightarrow> \<not> is_space c" for c
    by (auto simp: is_upper_ascii_def is_lower_ascii_def is_decimal_def is_space_def)
  ultimately have "token_char c \<Longrightarrow> \<not> is_space c" for c
    unfolding token_char_def by blast
  then have "\<not> is_space (hd (tok @ post))"
    using assms(4,5) by (cases tok) auto
  then have "re_match [Plus is_space, Plus token_char] (sp @ tok @ post) = Some (sp # [tok], post)"
    by (intro re_match_Plus_run [OF tok]) (use assms(2,3) in \<open>auto simp: blank_def\<close>)
  then show ?thesis
    using assms(1) by (simp add: bearer_pat_def re_match_lit_ci)
qed

lemma secret_needs_quote: "re_match (secret_pat key) s \<noteq> None \<Longrightarrow> quote_char \<in> set s"
proof -
  assume "re_match (secret_pat key) s \<noteq> None"
  then obtain gs u where s: "s = concat gs @ u" "splits_as (secret_pat key) gs u"
    unfolding re_match_iff_split by blast
  from splits_lit_ci [OF s(2) [unfolded secret_pat_def]] obtain kw gs' where gs: "gs = map (\<lambda>c. [c]) kw @ gs'"
    and sp: "splits_as ([Star is_space] @ lit ''='' @ [Star is_space] @ [One (\<lambda>c. c = quote_char),
      Star (\<lambda>c. c \<noteq> quote_char), One (\<lambda>c. c = quote_char)]) gs' u"
    by blast
  have "quote_char \<in> set (concat gs')"
    using sp by (cases gs'; cases "tl gs'"; cases "tl (tl gs')"; cases "tl (tl (tl gs'))")
      (auto simp: lit_def split: list.splits)
  then show ?thesis using s(1) gs by simp
qed

lemma secret_search_quote: "re_search (secret_pat key) s \<Longrightarrow> quote_char \<in> set s"
proof (induction s)
  case Nil
  then show ?case using secret_needs_quote [of key "[]"] by simp
next
  case (Cons c t)
  then show ?case using secret_needs_quote [of key "c # t"] by auto
qed

lemma secret_sub_no_quote:
  "re_pattern (secret_pat key) \<Longrightarrow> quote_char \<notin> set s \<Longrightarrow> re_sub (secret_pat key) f s = s"
  by (rule re_pattern.sub_id) (auto dest: secret_search_quote)

lemma redact_bearer:
  assumes "lower kw = ''bearer''" "blank sp" "sp \<noteq> []" "\<not> in_str ''bearer'' (lower pre)"
    and "list_all token_char tok" "tok \<noteq> []" "list_all token_char tok'" "tok' \<noteq> []"
    and "post = [] \<or> \<not> token_char (hd post)" "quote_char \<notin> set pre" "quote_char \<notin> set post"
  shows "redact_query_log (pre @ kw @ sp @ tok @ post) = redact_query_log (pre @ kw @ sp @ tok' @ post)"
proof -
  have skip: "re_sub bearer_pat f (pre @ kw @ v) = pre @ re_sub bearer_pat f (kw @ v)" for f v
  proof (rule bearer_re.sub_skip)
    fix a b assume "pre = a @ b" "b \<noteq> []"
    then show "re_match bearer_pat (b @ kw @ v) = None"
      unfolding bearer_pat_def using assms(1,4) no_key_part
      by (intro no_match_before_key [OF _ borderless_keys(3)]) auto
  qed
  have "list_all ident_char ''bearer''" by code_simp
  then have kw: "quote_char \<notin> set kw"
    using lower_key [OF assms(1)] by (auto simp: list_all_iff)
  have sp: "quote_char \<notin> set sp"
    using assms(2) by (auto simp: blank_def list_all_iff)
  have "\<not> token_char quote_char" by code_simp
  then have "quote_char \<notin> set (pre @ kw @ sp @ t @ post)" if "list_all token_char t" for t
    using that kw sp assms(10,11) by (auto simp: list_all_iff)
  then have "redact_query_log (pre @ kw @ sp @ t @ post) = re_sub jwt_pat (\<lambda>_. ''[REDACTED_JWT]'')
      (pre @ ''Bearer [REDACTED]'' @ re_sub bearer_pat (\<lambda>_. ''Bearer [REDACTED]'') post)"
    if "list_all token_char t" "t \<noteq> []" for t
    using that assms(1-4,9)
    by (simp add: redact_unfold secret_sub_no_quote [OF re_patterns(1)] secret_sub_no_quote [OF re_patterns(2)]
        skip bearer_re.sub_match [OF bearer_match])
  with assms(5-8) show ?thesis by simp
qed

text \<open>A second \<open>Bearer\<close> is taken for the token of the first, and the token stays.\<close>

lemma bearer_leaks: "in_str ''abc'' (redact_query_log ''Bearer Bearer abc'')"
  by code_simp

end
