(* ===== verification/Liorm_Execute.thy ===== *)
theory Liorm_Execute
  imports Liorm_Embed
begin

text \<open>
  \<open>liorm/execute.py\<close>: the registry of plans and the execution of a plan with parameters. The
  registry is the global \<open>_PLANS\<close>, a dictionary from plan ids; the state of the engine bridge is
  threaded through.
\<close>

section \<open>The registry of plans\<close>

record registered_plan =
  rp_name :: string
  rp_ir :: json
  rp_sql :: string
  rp_param_schema :: "(string, string) dict"

type_synonym plans = "(string, registered_plan) dict"

definition register_plan ::
  "string \<Rightarrow> string \<Rightarrow> json \<Rightarrow> string \<Rightarrow> (string, string) dict \<Rightarrow> plans \<Rightarrow> string \<times> plans" where
  "register_plan name plan_id ir sql param_schema plans =
     (plan_id, AList.update plan_id
        \<lparr>rp_name = name, rp_ir = ir, rp_sql = sql, rp_param_schema = param_schema\<rparr> plans)"

definition clear_plans :: "plans \<Rightarrow> plans" where
  "clear_plans plans = []"

section \<open>Execution\<close>

type_synonym params = "(string, pyval) dict"

record execute_result =
  x_plan_id :: string
  x_sql :: string
  x_bound_params :: "pyval list"
  x_rows :: "row list"

text \<open>\<open>[params[k] for k in schema]\<close>\<close>

definition ordered_params :: "(string, string) dict \<Rightarrow> params \<Rightarrow> pyval list result" where
  "ordered_params schema params =
     emap (\<lambda>k. case map_of params k of None \<Rightarrow> Inl (KeyError k) | Some v \<Rightarrow> Inr v) (dict_keys schema)"

definition verbatim :: "string \<Rightarrow> pyval \<Rightarrow> bool" where
  "verbatim sql v = (case v of PStr s \<Rightarrow> in_str s sql | _ \<Rightarrow> False)"

definition run_engine ::
  "'w os \<Rightarrow> string \<Rightarrow> pyval list \<Rightarrow> 'w embed_state \<Rightarrow> row list result \<times> 'w embed_state" where
  "run_engine os sql bound st =
     (let (ok, st1) = engine_ready os st in
      if \<not> ok then (Inl RuntimeError, st1) else execute_sql os sql bound st1)"

definition execute ::
  "'w os \<Rightarrow> plans \<Rightarrow> string \<Rightarrow> params \<Rightarrow> 'w embed_state \<Rightarrow> execute_result result \<times> 'w embed_state" where
  "execute os plans plan_id params st =
     (case map_of plans plan_id of
        None \<Rightarrow> (Inl (UnknownPlan plan_id), st)
      | Some plan \<Rightarrow>
          if set (dict_keys params) \<noteq> set (dict_keys (rp_param_schema plan)) then (Inl ParameterMismatch, st)
          else if list_ex (\<lambda>(key, v). verbatim (rp_sql plan) v) params then (Inl ParameterMismatch, st)
          else (case ordered_params (rp_param_schema plan) params of
                  Inl e \<Rightarrow> (Inl e, st)
                | Inr bound \<Rightarrow>
                    let (r, st1) = run_engine os (rp_sql plan) bound st in
                    (ebind r (\<lambda>rows. Inr \<lparr>x_plan_id = plan_id, x_sql = rp_sql plan,
                       x_bound_params = bound, x_rows = rows\<rparr>), st1)))"

section \<open>Binding\<close>

text \<open>With the same keys, the lookup never misses: the bound values are the values of the
  schema's keys, in the schema's order.\<close>

lemma ordered_params_eq:
  assumes "set (dict_keys params) = set (dict_keys schema)"
  shows "ordered_params schema params = Inr (map (\<lambda>k. the (map_of params k)) (dict_keys schema))"
  unfolding ordered_params_def
proof (rule emap_total)
  fix k assume "k \<in> set (dict_keys schema)"
  with assms obtain v where "map_of params k = Some v"
    using map_of_dict_key [of k params] by auto
  then show "(case map_of params k of None \<Rightarrow> Inl (KeyError k) | Some v \<Rightarrow> Inr v) = Inr (the (map_of params k))"
    by simp
qed

text \<open>The checks of \<open>execute\<close>, as one decision.\<close>

definition accepts :: "registered_plan \<Rightarrow> params \<Rightarrow> bool" where
  "accepts plan params \<longleftrightarrow>
     set (dict_keys params) = set (dict_keys (rp_param_schema plan)) \<and>
     (\<forall>(key, v)\<in>set params. \<not> verbatim (rp_sql plan) v)"

definition bound_values :: "registered_plan \<Rightarrow> params \<Rightarrow> pyval list" where
  "bound_values plan params = map (\<lambda>k. the (map_of params k)) (dict_keys (rp_param_schema plan))"

lemma execute_eq:
  "execute os plans plan_id params st =
     (case map_of plans plan_id of
        None \<Rightarrow> (Inl (UnknownPlan plan_id), st)
      | Some plan \<Rightarrow>
          if \<not> accepts plan params then (Inl ParameterMismatch, st)
          else let (r, st1) = run_engine os (rp_sql plan) (bound_values plan params) st in
            (ebind r (\<lambda>rows. Inr \<lparr>x_plan_id = plan_id, x_sql = rp_sql plan,
               x_bound_params = bound_values plan params, x_rows = rows\<rparr>), st1))"
proof (cases "map_of plans plan_id")
  case (Some plan)
  have "list_ex (\<lambda>(key, v). verbatim (rp_sql plan) v) params \<longleftrightarrow>
      \<not> (\<forall>(key, v)\<in>set params. \<not> verbatim (rp_sql plan) v)"
    by (auto simp: list_ex_iff)
  with Some show ?thesis
    unfolding bound_values_def accepts_def by (auto simp: execute_def ordered_params_eq)
qed (simp add: execute_def)

lemma register_lookup:
  "map_of (snd (register_plan name pid ir sql sch plans)) k =
     (if k = pid then Some \<lparr>rp_name = name, rp_ir = ir, rp_sql = sql, rp_param_schema = sch\<rparr> else map_of plans k)"
  by (simp add: register_plan_def map_of_update_dict)

lemma empty_in_str [simp]: "in_str [] s"
  by (simp add: in_str_def)

end
