(* ===== verification/Security_Probes.thy ===== *)
theory Security_Probes
  imports Liq_Params Liorm_Execute Liorm_Capabilities
begin

text \<open>
  \<open>scripts/security_probe.py\<close>: the probes that the CVE tests run against the compiler, the
  plan registry, the execution and the capabilities. A probe is an action on the registry and
  the engine's state; an exception it does not catch ends the script.
\<close>

section \<open>Probes\<close>

type_synonym 'w probe_state = "plans \<times> 'w embed_state"

type_synonym ('w, 'a) probe = "('w probe_state, 'a) action"

definition probe_clear :: "('w, unit) probe" where
  "probe_clear = (\<lambda>(plans, e). (Inr (), clear_plans plans, e))"

definition probe_register :: "string \<Rightarrow> compile_result \<Rightarrow> ('w, string) probe" where
  "probe_register name plan = (\<lambda>(plans, e).
     let (pid, plans1) = register_plan name (c_plan_id plan) (c_ir plan) (c_sql plan) (c_param_schema plan) plans
     in (Inr pid, plans1, e))"

definition probe_execute :: "'w os \<Rightarrow> string \<Rightarrow> params \<Rightarrow> ('w, execute_result) probe" where
  "probe_execute os pid params = (\<lambda>(plans, e).
     let (r, e1) = execute os plans pid params e in (r, plans, e1))"

definition probe_param_concat :: "(string \<Rightarrow> string) \<Rightarrow> 'w os \<Rightarrow> ('w, bool) probe" where
  "probe_param_concat sha os =
     act_seq probe_clear (\<lambda>_.
     act_seq (lift_result (compile sha ''read agent_runs where status = $status limit 5'')) (\<lambda>plan.
     if in_str ''running'' (c_sql plan) \<or> in_str (CHR 0x27 # '' OR 1=1'') (c_sql plan) then act_ret False
     else
       act_seq (probe_register ''probe.param_concat'' plan) (\<lambda>pid.
       let malicious = CHR 0x27 # '' OR 1=1 --'' in (\<lambda>st.
       (case probe_execute os pid [(''status'', PStr malicious)] st of
          (Inl ParameterMismatch, st1) \<Rightarrow> (Inr True, st1)
        | (Inl e, st1) \<Rightarrow> (Inl e, st1)
        | (Inr _, st1) \<Rightarrow> (Inr (\<not> in_str malicious (c_sql plan)), st1))))))"

definition probe_second_order :: "(string \<Rightarrow> string) \<Rightarrow> 'w os \<Rightarrow> ('w, bool) probe" where
  "probe_second_order sha os =
     act_seq probe_clear (\<lambda>_.
     act_seq (lift_result (compile sha ''read agent_runs where status = $status limit 1'')) (\<lambda>plan.
     act_seq (probe_register ''probe.second_order'' plan) (\<lambda>pid.
     let stored = ''x'' @ CHR 0x27 # ''; DROP TABLE agent_runs; --'' in
     act_seq (probe_execute os pid [(''status'', PStr stored)]) (\<lambda>result.
     act_ret (\<not> in_str stored (x_sql result) \<and> PStr stored \<in> set (x_bound_params result))))))"

text \<open>The loop over the fixtures: \<open>return False\<close> at the first that compiles.\<close>

fun none_compiles :: "(string \<Rightarrow> string) \<Rightarrow> string list \<Rightarrow> bool result" where
  "none_compiles sha [] = Inr True"
| "none_compiles sha (src # srcs) =
     (case compile sha src of
        Inr _ \<Rightarrow> Inr False
      | Inl (ParseError _) \<Rightarrow> none_compiles sha srcs
      | Inl CompileError \<Rightarrow> none_compiles sha srcs
      | Inl (CatalogError _) \<Rightarrow> none_compiles sha srcs
      | Inl e \<Rightarrow> Inl e)"

definition probe_identifier_injection :: "(string \<Rightarrow> string) \<Rightarrow> ('w, bool) probe" where
  "probe_identifier_injection sha =
     lift_result (none_compiles sha [''read evil_table limit 1'', ''read agent_runs { id, not_a_column } limit 1''])"

text \<open>The two nested loops over profiles and capabilities.\<close>

fun all_denied :: "(profile \<times> raw_sql_capability) list \<Rightarrow> bool result" where
  "all_denied [] = Inr True"
| "all_denied ((p, cap) # rest) =
     (case assert_capability p cap of
        Inr () \<Rightarrow> Inr False
      | Inl CapabilityDenied \<Rightarrow> all_denied rest
      | Inl e \<Rightarrow> Inl e)"

definition denied_pairs :: "(profile \<times> raw_sql_capability) list" where
  "denied_pairs = [(p, cap). p \<leftarrow> [AGENT, MCP], cap \<leftarrow> [SESSION, MIGRATION]]"

definition probe_raw_sql_escalation :: "('w, bool) probe" where
  "probe_raw_sql_escalation =
     act_seq (lift_result (all_denied denied_pairs)) (\<lambda>ok.
     if \<not> ok then act_ret False
     else
       act_seq (lift_result (assert_capability CLI_ADMIN SESSION)) (\<lambda>_.
       act_seq (lift_result (assert_capability MIGRATION_RUNNER MIGRATION)) (\<lambda>_.
       act_ret True)))"

section \<open>The script\<close>

definition PROBES :: "(string \<Rightarrow> string) \<Rightarrow> 'w os \<Rightarrow> (string, ('w, bool) probe) dict" where
  "PROBES sha os = [
     (''cve-cwe-89-sql-injection-via-param-concat'', probe_param_concat sha os),
     (''cve-cwe-89-second-order-sql-injection-stored-value'', probe_second_order sha os),
     (''cve-cwe-89-identifier-injection-dynamic-table'', probe_identifier_injection sha),
     (''cve-raw-sql-capability-audit-escalation'', probe_raw_sql_escalation)]"

text \<open>The exit code; an uncaught exception ends the interpreter with code 1.\<close>

definition exit_of :: "bool result \<Rightarrow> int" where
  "exit_of r = (case r of Inr True \<Rightarrow> 0 | _ \<Rightarrow> 1)"

definition probe_main :: "(string, ('w, bool) probe) dict \<Rightarrow> string list \<Rightarrow> 'w probe_state \<Rightarrow> int \<times> 'w probe_state" where
  "probe_main probes argv st =
     (if length argv \<noteq> 2 then (2, st)
      else case map_of probes (argv ! 1) of
        None \<Rightarrow> (2, st)
      | Some fn \<Rightarrow> let (r, st1) = fn st in (exit_of r, st1))"

section \<open>The probes find nothing\<close>

lemma probe_clear_eq: "probe_clear st = (Inr (), [], snd st)"
  by (cases st) (simp add: probe_clear_def clear_plans_def)

lemma compile_sql:
  "ebind (parse src) lower_stmt = Inr (sql, sc) \<Longrightarrow>
     \<exists>plan. compile sha src = Inr plan \<and> c_sql plan = sql \<and> c_param_schema plan = sc"
  by (auto simp: compile_def Let_def ebind_eq_Inr)

text \<open>Executing the one registered plan with acceptable values reaches the engine.\<close>

lemma probe_run:
  assumes "probe_register name plan ([], e) = (Inr pid, st)" "accepts \<lparr>rp_name = name, rp_ir = c_ir plan,
      rp_sql = c_sql plan, rp_param_schema = c_param_schema plan\<rparr> params"
    and "probe_execute os pid params st = (r, st1)"
  shows "(\<exists>x. r = Inr x \<and> x_sql x = c_sql plan \<and>
      x_bound_params x = map (\<lambda>k. the (map_of params k)) (dict_keys (c_param_schema plan))) \<or>
    (\<exists>x. r = Inl x \<and> fst (run_engine os (c_sql plan)
      (map (\<lambda>k. the (map_of params k)) (dict_keys (c_param_schema plan))) e) = Inl x)"
  using assms
  by (auto simp: probe_register_def register_plan_def probe_execute_def execute_eq bound_values_def Let_def ebind_def
      split: prod.splits sum.splits)

text \<open>What the engine bridge raises.\<close>

definition engine_exc :: "exc set" where
  "engine_exc = {RuntimeError, ValueError, TypeError, AttributeError}"

lemma row_pair_exc: "row_pair v = Inl e \<Longrightarrow> e \<in> {TypeError, ValueError}"
  by (cases v rule: row_pair.cases) (auto split: list.splits prod.splits)

lemma row_set_exc: "row_set k v d = Inl e \<Longrightarrow> e = TypeError"
  by (cases k) simp_all

lemma row_fill_exc: "row_fill es d = Inl e \<Longrightarrow> e \<in> {TypeError, ValueError}"
  by (induction es d rule: row_fill.induct) (auto simp: ebind_eq_Inl dest!: row_pair_exc row_set_exc)

lemma row_of_exc: "row_of v = Inl e \<Longrightarrow> e \<in> {TypeError, ValueError}"
  by (cases v rule: row_of.cases) (auto dest!: row_fill_exc)

lemma emap_row_of_exc: "emap f xs = Inl e \<Longrightarrow> (\<And>x. \<exists>v. f x = row_of v) \<Longrightarrow> e \<in> {TypeError, ValueError}"
  using emap_Inl [of f xs e] row_of_exc by metis

lemma rows_of_exc: "rows_of v = Inl e \<Longrightarrow> e \<in> {TypeError, ValueError, AttributeError}"
proof (cases v)
  case (JObj d)
  assume e: "rows_of v = Inl e"
  show ?thesis
  proof (cases "map_of d ''rows''")
    case None
    with e JObj show ?thesis by simp
  next
    case (Some w)
    note w = this
    have "e \<in> {TypeError, ValueError}"
    proof (cases w)
      case (JList vs)
      with e w \<open>v = JObj d\<close> have "emap row_of vs = Inl e" by simp
      then show ?thesis by (rule emap_row_of_exc) blast
    next
      case (JStr s)
      with e w \<open>v = JObj d\<close> have "emap (\<lambda>c. row_of (JStr [c])) s = Inl e" by simp
      then show ?thesis by (rule emap_row_of_exc) blast
    next
      case (JObj kvs)
      with e w \<open>v = JObj d\<close> have "emap (\<lambda>(k, v). row_of (JStr k)) kvs = Inl e" by simp
      then show ?thesis by (rule emap_row_of_exc) (simp only: split_beta, blast)
    qed (use e w \<open>v = JObj d\<close> in simp_all)
    then show ?thesis by blast
  qed
qed simp_all

lemma exec_parameterized_exc:
  "exec_parameterized os d sql ps w = (Inl e, w') \<Longrightarrow> e \<in> engine_exc"
  by (auto simp: exec_parameterized_def engine_exc_def ebind_eq_Inl loads_def dest: rows_of_exc
      split: prod.splits if_splits option.splits)

lemma run_engine_exc: "fst (run_engine os sql ps st) = Inl e \<Longrightarrow> e \<in> engine_exc"
  by (auto simp: run_engine_def execute_sql_def session_exec_def engine_exc_def Let_def
      dest!: exec_parameterized_exc split: prod.splits if_splits option.splits)

definition probe_ok :: "bool result \<Rightarrow> bool" where
  "probe_ok r \<longleftrightarrow> r = Inr True \<or> (\<exists>e\<in>engine_exc. r = Inl e)"

lemma probe_ok_True [simp]: "probe_ok (Inr True)"
  by (simp add: probe_ok_def)

lemma param_concat_ok: "probe_ok (fst (probe_param_concat sha os st))"
proof -
  let ?bad = "CHR 0x27 # '' OR 1=1 --''"
  obtain sql sc where low: "ebind (parse ''read agent_runs where status = $status limit 5'') lower_stmt = Inr (sql, sc)"
    and sql: "\<not> in_str ''running'' sql" "\<not> in_str (CHR 0x27 # '' OR 1=1'') sql" "\<not> in_str ?bad sql"
    and sc: "dict_keys sc = [''status'']"
  proof -
    have "case ebind (parse ''read agent_runs where status = $status limit 5'') lower_stmt of Inl _ \<Rightarrow> False
       | Inr (sql, sc) \<Rightarrow> \<not> in_str ''running'' sql \<and> \<not> in_str (CHR 0x27 # '' OR 1=1'') sql \<and>
           \<not> in_str ?bad sql \<and> dict_keys sc = [''status'']" by code_simp
    then show ?thesis using that by (auto split: sum.splits)
  qed
  from compile_sql [OF low] obtain plan where plan: "compile sha ''read agent_runs where status = $status limit 5'' = Inr plan"
    "c_sql plan = sql" "c_param_schema plan = sc" by blast
  obtain pid st1 where reg: "probe_register ''probe.param_concat'' plan ([], snd st) = (Inr pid, st1)"
    by (simp add: probe_register_def register_plan_def)
  obtain r st2 where run: "probe_execute os pid [(''status'', PStr ?bad)] st1 = (r, st2)"
    by (cases "probe_execute os pid [(''status'', PStr ?bad)] st1")
  have "accepts \<lparr>rp_name = ''probe.param_concat'', rp_ir = c_ir plan, rp_sql = c_sql plan,
      rp_param_schema = c_param_schema plan\<rparr> [(''status'', PStr ?bad)]"
    using plan sql sc by (simp add: accepts_def verbatim_def)
  from probe_run [OF reg this run] have "(\<exists>x. r = Inr x) \<or> (\<exists>e\<in>engine_exc. r = Inl e)"
    by (auto dest: run_engine_exc)
  then show ?thesis
    unfolding probe_param_concat_def
    using plan sql reg run by (auto simp: probe_clear_eq act_seq_def probe_ok_def Let_def engine_exc_def)
qed

lemma second_order_ok: "probe_ok (fst (probe_second_order sha os st))"
proof -
  let ?bad = "''x'' @ CHR 0x27 # ''; DROP TABLE agent_runs; --''"
  obtain sql sc where low: "ebind (parse ''read agent_runs where status = $status limit 1'') lower_stmt = Inr (sql, sc)"
    and sql: "\<not> in_str ?bad sql" and sc: "dict_keys sc = [''status'']"
  proof -
    have "case ebind (parse ''read agent_runs where status = $status limit 1'') lower_stmt of Inl _ \<Rightarrow> False
       | Inr (sql, sc) \<Rightarrow> \<not> in_str ?bad sql \<and> dict_keys sc = [''status'']" by code_simp
    then show ?thesis using that by (auto split: sum.splits)
  qed
  from compile_sql [OF low] obtain plan where plan: "compile sha ''read agent_runs where status = $status limit 1'' = Inr plan"
    "c_sql plan = sql" "c_param_schema plan = sc" by blast
  obtain pid st1 where reg: "probe_register ''probe.second_order'' plan ([], snd st) = (Inr pid, st1)"
    by (simp add: probe_register_def register_plan_def)
  obtain r st2 where run: "probe_execute os pid [(''status'', PStr ?bad)] st1 = (r, st2)"
    by (cases "probe_execute os pid [(''status'', PStr ?bad)] st1")
  have "accepts \<lparr>rp_name = ''probe.second_order'', rp_ir = c_ir plan, rp_sql = c_sql plan,
      rp_param_schema = c_param_schema plan\<rparr> [(''status'', PStr ?bad)]"
    using plan sql sc by (simp add: accepts_def verbatim_def)
  from probe_run [OF reg this run]
  have "(\<exists>x. r = Inr x \<and> x_sql x = sql \<and> x_bound_params x = [PStr ?bad]) \<or> (\<exists>e\<in>engine_exc. r = Inl e)"
    using plan sc by (auto dest: run_engine_exc)
  then show ?thesis
    unfolding probe_second_order_def
    using plan sql reg run by (auto simp: probe_clear_eq act_seq_def probe_ok_def Let_def)
qed

lemma identifier_injection_ok: "fst (probe_identifier_injection sha st) = Inr True"
proof -
  have "ebind (parse ''read evil_table limit 1'') lower_stmt \<in> range (\<lambda>m. Inl (CatalogError m))"
    "ebind (parse ''read agent_runs { id, not_a_column } limit 1'') lower_stmt \<in> range (\<lambda>m. Inl (CatalogError m))"
    by (code_simp, simp)+
  then show ?thesis
    by (auto simp: probe_identifier_injection_def compile_def ebind_eq_Inl ebind_assoc ebind_def split: sum.splits)
qed

lemma raw_sql_escalation_ok: "probe_raw_sql_escalation st = (Inr True, st)"
  by (simp add: probe_raw_sql_escalation_def denied_pairs_def assert_capability_def PROFILE_CAPS_def act_seq_def)

lemma security_probes_ok: "map_of (PROBES sha os) name = Some fn \<Longrightarrow> probe_ok (fst (fn st))"
  by (auto simp: PROBES_def param_concat_ok second_order_ok identifier_injection_ok raw_sql_escalation_ok
      split: if_splits)

end
