(* ===== verification/Registry_Plans.thy ===== *)
theory Registry_Plans
  imports Liorm_Execute
begin

text \<open>
  \<open>registry/plans.py\<close> and \<open>registry/bootstrap.py\<close>: the seven frozen plans of the package
  registry, and their registration, which happens once per process.
\<close>

section \<open>The frozen plans\<close>

record registry_plan_spec =
  s_name :: string
  s_plan_id :: string
  s_sql :: string
  s_param_schema :: "(string, string) dict"
  s_ir :: json

definition PACKAGE_BY_NAME :: registry_plan_spec where
  "PACKAGE_BY_NAME = \<lparr>s_name = ''registry.package_by_name'', s_plan_id = ''registry:package_by_name:v1'',
     s_sql = ''SELECT id, name, description, repository_url FROM packages WHERE name = $1 LIMIT 1'',
     s_param_schema = [(''name'', ''text'')],
     s_ir = JObj [(''verb'', JStr ''read''), (''table'', JStr ''packages''), (''filter'', JStr ''name'')]\<rparr>"

definition VERSION_BY_PKG_VERSION :: registry_plan_spec where
  "VERSION_BY_PKG_VERSION = \<lparr>s_name = ''registry.version_by_pkg_version'',
     s_plan_id = ''registry:version_by_pkg_version:v1'',
     s_sql = ''SELECT id, package_id, version, tree_digest, proof_digest, coverage_pct, '' @
       ''publisher_id, published_at, yanked FROM package_versions '' @
       ''WHERE package_id = $1 AND version = $2 LIMIT 1'',
     s_param_schema = [(''package_id'', ''uuid''), (''version'', ''text'')],
     s_ir = JObj [(''verb'', JStr ''read''), (''table'', JStr ''package_versions''),
       (''filter'', JList [JStr ''package_id'', JStr ''version''])]\<rparr>"

definition VERSIONS_FOR_PACKAGE :: registry_plan_spec where
  "VERSIONS_FOR_PACKAGE = \<lparr>s_name = ''registry.versions_for_package'',
     s_plan_id = ''registry:versions_for_package:v1'',
     s_sql = ''SELECT id, version, tree_digest, proof_digest, coverage_pct, published_at, yanked '' @
       ''FROM package_versions WHERE package_id = $1'',
     s_param_schema = [(''package_id'', ''uuid'')],
     s_ir = JObj [(''verb'', JStr ''read''), (''table'', JStr ''package_versions''), (''filter'', JStr ''package_id'')]\<rparr>"

definition INSERT_PACKAGE :: registry_plan_spec where
  "INSERT_PACKAGE = \<lparr>s_name = ''registry.insert_package'', s_plan_id = ''registry:insert_package:v1'',
     s_sql = ''INSERT INTO packages (id, name, description, repository_url) VALUES ($1, $2, $3, $4)'',
     s_param_schema = [(''id'', ''uuid''), (''name'', ''text''), (''description'', ''text''), (''repository_url'', ''text'')],
     s_ir = JObj [(''verb'', JStr ''insert''), (''table'', JStr ''packages'')]\<rparr>"

definition INSERT_PACKAGE_VERSION :: registry_plan_spec where
  "INSERT_PACKAGE_VERSION = \<lparr>s_name = ''registry.insert_package_version'',
     s_plan_id = ''registry:insert_package_version:v1'',
     s_sql = ''INSERT INTO package_versions '' @
       ''(id, package_id, version, tree_digest, proof_digest, coverage_pct, publisher_id) '' @
       ''VALUES ($1, $2, $3, $4, $5, $6, $7)'',
     s_param_schema = [(''id'', ''uuid''), (''package_id'', ''uuid''), (''version'', ''text''),
       (''tree_digest'', ''text''), (''proof_digest'', ''text''), (''coverage_pct'', ''text''), (''publisher_id'', ''uuid'')],
     s_ir = JObj [(''verb'', JStr ''insert''), (''table'', JStr ''package_versions'')]\<rparr>"

definition PUBLISHER_BY_NAME :: registry_plan_spec where
  "PUBLISHER_BY_NAME = \<lparr>s_name = ''registry.publisher_by_name'', s_plan_id = ''registry:publisher_by_name:v1'',
     s_sql = ''SELECT id, name FROM publishers WHERE name = $1 LIMIT 1'',
     s_param_schema = [(''name'', ''text'')],
     s_ir = JObj [(''verb'', JStr ''read''), (''table'', JStr ''publishers''), (''filter'', JStr ''name'')]\<rparr>"

definition INSERT_PUBLISHER :: registry_plan_spec where
  "INSERT_PUBLISHER = \<lparr>s_name = ''registry.insert_publisher'', s_plan_id = ''registry:insert_publisher:v1'',
     s_sql = ''INSERT INTO publishers (id, name, public_key) VALUES ($1, $2, $3)'',
     s_param_schema = [(''id'', ''uuid''), (''name'', ''text''), (''public_key'', ''text'')],
     s_ir = JObj [(''verb'', JStr ''insert''), (''table'', JStr ''publishers'')]\<rparr>"

definition REGISTRY_PLANS :: "registry_plan_spec list" where
  "REGISTRY_PLANS = [PACKAGE_BY_NAME, VERSION_BY_PKG_VERSION, VERSIONS_FOR_PACKAGE, INSERT_PACKAGE,
     INSERT_PACKAGE_VERSION, PUBLISHER_BY_NAME, INSERT_PUBLISHER]"

lemmas registry_plan_defs = PACKAGE_BY_NAME_def VERSION_BY_PKG_VERSION_def VERSIONS_FOR_PACKAGE_def
  INSERT_PACKAGE_def INSERT_PACKAGE_VERSION_def PUBLISHER_BY_NAME_def INSERT_PUBLISHER_def

definition all_registry_plans :: "registry_plan_spec list" where
  "all_registry_plans = REGISTRY_PLANS"

section \<open>Registration\<close>

text \<open>The loop over the specifications; \<open>ids\<close> collects the registered plan ids.\<close>

fun register_specs :: "registry_plan_spec list \<Rightarrow> string list \<Rightarrow> plans \<Rightarrow> string list \<times> plans" where
  "register_specs [] ids plans = (ids, plans)"
| "register_specs (spec # specs) ids plans =
     (let (_, plans1) = register_plan (s_name spec) (s_plan_id spec) (s_ir spec) (s_sql spec) (s_param_schema spec) plans
      in register_specs specs (ids @ [s_plan_id spec]) plans1)"

text \<open>The state is the flag \<open>_REGISTERED\<close> and the registry.\<close>

definition register_registry_plans :: "bool \<Rightarrow> bool \<times> plans \<Rightarrow> string list \<times> (bool \<times> plans)" where
  "register_registry_plans force st =
     (let (registered, plans) = st in
      if registered \<and> \<not> force then ([], (registered, plans))
      else let (ids, plans1) = register_specs all_registry_plans [] plans in (ids, (True, plans1)))"

text \<open>The plan a specification registers.\<close>

definition plan_of_spec :: "registry_plan_spec \<Rightarrow> registered_plan" where
  "plan_of_spec s = \<lparr>rp_name = s_name s, rp_ir = s_ir s, rp_sql = s_sql s, rp_param_schema = s_param_schema s\<rparr>"

lemma register_specs_ids: "fst (register_specs specs ids plans) = ids @ map s_plan_id specs"
  by (induction specs ids plans rule: register_specs.induct) (auto simp: register_plan_def)

lemma register_specs_other:
  "k \<notin> s_plan_id ` set specs \<Longrightarrow> map_of (snd (register_specs specs ids plans)) k = map_of plans k"
  by (induction specs ids plans rule: register_specs.induct) (auto simp: register_plan_def map_of_update_dict)

lemma register_specs_lookup:
  "distinct (map s_plan_id specs) \<Longrightarrow> s \<in> set specs \<Longrightarrow>
     map_of (snd (register_specs specs ids plans)) (s_plan_id s) = Some (plan_of_spec s)"
proof (induction specs ids plans rule: register_specs.induct)
  case (2 spec specs ids plans)
  let ?plans = "snd (register_plan (s_name spec) (s_plan_id spec) (s_ir spec) (s_sql spec) (s_param_schema spec) plans)"
  have step: "snd (register_specs (spec # specs) ids plans) = snd (register_specs specs (ids @ [s_plan_id spec]) ?plans)"
    by (simp add: register_plan_def)
  show ?case
  proof (cases "s = spec")
    case True
    then have "s_plan_id s \<notin> s_plan_id ` set specs" using 2 by auto
    then show ?thesis
      unfolding step by (simp add: register_specs_other register_lookup True plan_of_spec_def)
  next
    case False
    then show ?thesis
      unfolding step using 2 by (intro "2.IH" [OF refl prod.collapse]) auto
  qed
qed simp

lemma registry_ids_distinct: "distinct (map s_plan_id REGISTRY_PLANS)"
  by code_simp

lemma register_registry_lookup:
  assumes "register_registry_plans force (registered, plans) = (ids, st)" "force \<or> \<not> registered" "s \<in> set REGISTRY_PLANS"
  shows "map_of (snd st) (s_plan_id s) = Some (plan_of_spec s)"
  using assms register_specs_lookup [OF registry_ids_distinct assms(3), of "[]" plans]
  by (auto simp: register_registry_plans_def all_registry_plans_def split: prod.splits)

text \<open>
  The plans fit the engine's calling convention: the placeholders in the text are \<open>$1\<close> to \<open>$n\<close>
  in order, for a schema of \<open>n\<close> parameters, and no key is repeated.
\<close>

fun dollar_numbers :: "string \<Rightarrow> nat list" where
  "dollar_numbers [] = []"
| "dollar_numbers (c # t) =
     (if c = CHR ''$'' then nat_of_digits (takeWhile is_decimal t) # dollar_numbers t else dollar_numbers t)"

definition spec_ok :: "registry_plan_spec \<Rightarrow> bool" where
  "spec_ok s \<longleftrightarrow> is_dict (s_param_schema s) \<and>
     dollar_numbers (s_sql s) = [1..<length (s_param_schema s) + 1]"

lemma registry_plans_ok: "list_all spec_ok REGISTRY_PLANS"
  by code_simp

end
