(* ===== verification/Registry_Service.thy ===== *)
theory Registry_Service
  imports Registry_Plans
begin

text \<open>
  \<open>registry/service.py\<close>: the package registry on top of the frozen plans. The operations are
  written over the call \<open>self._run(plan_id, params)\<close> (\<open>run\<close>), the source of fresh ids
  (\<open>uuid.uuid4\<close>) and the conversion \<open>float(x)\<close>; \<open>registry_run\<close> below is the \<open>run\<close> of the code.
  A float is its \<open>repr\<close>, a public key given as bytes is the text of the same code points.
\<close>

section \<open>\<open>str\<close> and truth of values read back\<close>

definition repr_char :: "char \<Rightarrow> char \<Rightarrow> string" where
  "repr_char q c =
     (if c = q \<or> ord c = 92 then [CHR 0x5C, c]
      else if ord c = 10 then [CHR 0x5C, CHR ''n'']
      else if ord c = 13 then [CHR 0x5C, CHR ''r'']
      else if ord c = 9 then [CHR 0x5C, CHR ''t'']
      else if ord c < 32 \<or> (127 \<le> ord c \<and> ord c \<le> 160) \<or> ord c = 173
      then [CHR 0x5C, CHR ''x'', hex_digit (ord c div 16), hex_digit (ord c mod 16)]
      else [c])"

definition repr_str :: "string \<Rightarrow> string" where
  "repr_str s =
     (let q = (if CHR 0x27 \<in> set s \<and> CHR 0x22 \<notin> set s then CHR 0x22 else CHR 0x27)
      in q # concat (map (repr_char q) s) @ [q])"

fun repr_json :: "json \<Rightarrow> string" where
  "repr_json JNull = ''None''"
| "repr_json (JBool b) = (if b then ''True'' else ''False'')"
| "repr_json (JInt i) = show_int i"
| "repr_json (JFloat r) = r"
| "repr_json (JStr s) = repr_str s"
| "repr_json (JList vs) = ''['' @ join '', '' (map repr_json vs) @ '']''"
| "repr_json (JObj kvs) = ''{'' @ join '', '' (map (\<lambda>(k, v). repr_str k @ '': '' @ repr_json v) kvs) @ ''}''"

definition str_json :: "json \<Rightarrow> string" where
  "str_json v = (case v of JStr s \<Rightarrow> s | _ \<Rightarrow> repr_json v)"

definition json_true :: "json \<Rightarrow> bool" where
  "json_true v = (case v of JNull \<Rightarrow> False | JBool b \<Rightarrow> b | JInt i \<Rightarrow> i \<noteq> 0
     | JFloat r \<Rightarrow> r \<noteq> ''0.0'' \<and> r \<noteq> ''-0.0'' | JStr s \<Rightarrow> s \<noteq> [] | JList vs \<Rightarrow> vs \<noteq> [] | JObj d \<Rightarrow> d \<noteq> [])"

definition get_default :: "row \<Rightarrow> string \<Rightarrow> json \<Rightarrow> json" where
  "get_default row k d = (case map_of row k of None \<Rightarrow> d | Some v \<Rightarrow> v)"

definition get_item :: "row \<Rightarrow> string \<Rightarrow> json result" where
  "get_item row k = (case map_of row k of None \<Rightarrow> Inl (KeyError k) | Some v \<Rightarrow> Inr v)"

section \<open>Records\<close>

record package_version_record =
  v_name :: string
  v_version :: string
  v_tree_digest :: string
  v_proof_digest :: "string option"
  v_coverage_pct :: string
  v_publisher_id :: string
  v_published_at :: "string option"
  v_yanked :: bool
  v_package_id :: string
  v_version_id :: string

text \<open>\<open>yanked_raw in (True, "true", "1", 1)\<close>: equality of Python, where \<open>True == 1 == 1.0\<close>.\<close>

definition yanked_value :: "json \<Rightarrow> bool" where
  "yanked_value v \<longleftrightarrow> v \<in> {JBool True, JStr ''true'', JStr ''1'', JInt 1, JFloat ''1.0''}"

definition row_to_record :: "(json \<Rightarrow> string result) \<Rightarrow> string \<Rightarrow> row \<Rightarrow> package_version_record result" where
  "row_to_record to_float package_name row =
     (let yanked = yanked_value (get_default row ''yanked'' (JBool False));
          proof_raw = get_default row ''proof_digest'' JNull;
          published = get_default row ''published_at'' JNull in
      ebind (get_item row ''version'') (\<lambda>version.
      ebind (get_item row ''tree_digest'') (\<lambda>tree_digest.
      ebind (to_float (get_default row ''coverage_pct'' (JInt 0))) (\<lambda>coverage.
      ebind (get_item row ''id'') (\<lambda>vid.
      Inr \<lparr>v_name = package_name, v_version = str_json version, v_tree_digest = str_json tree_digest,
           v_proof_digest = (if proof_raw \<in> {JNull, JStr []} then None else Some (str_json proof_raw)),
           v_coverage_pct = coverage,
           v_publisher_id = str_json (get_default row ''publisher_id'' (JStr [])),
           v_published_at = (if json_true published then Some (str_json published) else None),
           v_yanked = yanked,
           v_package_id = str_json (get_default row ''package_id'' (JStr [])),
           v_version_id = str_json vid\<rparr>)))))"

definition to_api_dict :: "package_version_record \<Rightarrow> (string, json) dict" where
  "to_api_dict r = [
     (''name'', JStr (v_name r)),
     (''version'', JStr (v_version r)),
     (''tree_digest'', JStr (v_tree_digest r)),
     (''proof_digest'', (case v_proof_digest r of None \<Rightarrow> JNull | Some s \<Rightarrow> JStr s)),
     (''coverage_pct'', JFloat (v_coverage_pct r)),
     (''publisher_id'', JStr (v_publisher_id r)),
     (''published_at'', (case v_published_at r of None \<Rightarrow> JNull | Some s \<Rightarrow> JStr s)),
     (''yanked'', JBool (v_yanked r))]"

section \<open>Operations\<close>

type_synonym 's plan_run = "string \<Rightarrow> params \<Rightarrow> ('s, row list) action"

text \<open>The loop over the rows of a package's versions.\<close>

fun find_version :: "(json \<Rightarrow> string result) \<Rightarrow> string \<Rightarrow> string \<Rightarrow> string \<Rightarrow> row list \<Rightarrow>
    package_version_record option result" where
  "find_version to_float name pkg_id version [] = Inr None"
| "find_version to_float name pkg_id version (row # rows) =
     (if str_json (get_default row ''version'' JNull) = version
      then ebind (row_to_record to_float name (AList.update ''package_id'' (JStr pkg_id) row)) (\<lambda>r. Inr (Some r))
      else find_version to_float name pkg_id version rows)"

definition get_package_version ::
  "'s plan_run \<Rightarrow> (json \<Rightarrow> string result) \<Rightarrow> string \<Rightarrow> string \<Rightarrow> ('s, package_version_record option) action" where
  "get_package_version run to_float name version =
     act_seq (run ''registry:package_by_name:v1'' [(''name'', PStr name)]) (\<lambda>pkg_rows.
       (case pkg_rows of
          [] \<Rightarrow> act_ret None
        | pkg # _ \<Rightarrow>
            act_seq (lift_result (get_item pkg ''id'')) (\<lambda>pid.
            act_seq (run ''registry:versions_for_package:v1'' [(''package_id'', PStr (str_json pid))]) (\<lambda>rows.
            lift_result (find_version to_float name (str_json pid) version rows)))))"

definition keep_records ::
  "bool \<Rightarrow> package_version_record list \<Rightarrow> package_version_record list" where
  "keep_records include_yanked rs = filter (\<lambda>r. include_yanked \<or> \<not> v_yanked r) rs"

definition list_package_versions ::
  "'s plan_run \<Rightarrow> (json \<Rightarrow> string result) \<Rightarrow> string \<Rightarrow> bool \<Rightarrow> ('s, package_version_record list) action" where
  "list_package_versions run to_float name include_yanked =
     act_seq (run ''registry:package_by_name:v1'' [(''name'', PStr name)]) (\<lambda>pkg_rows.
       (case pkg_rows of
          [] \<Rightarrow> act_ret []
        | pkg # _ \<Rightarrow>
            act_seq (lift_result (get_item pkg ''id'')) (\<lambda>pid.
            act_seq (run ''registry:versions_for_package:v1'' [(''package_id'', PStr (str_json pid))]) (\<lambda>rows.
            lift_result (ebind (emap (row_to_record to_float name) rows) (\<lambda>rs. Inr (keep_records include_yanked rs)))))))"

definition ensure_publisher ::
  "'s plan_run \<Rightarrow> ('s, string) action \<Rightarrow> string \<Rightarrow> string \<Rightarrow> ('s, string) action" where
  "ensure_publisher run uuid4 name public_key =
     act_seq (run ''registry:publisher_by_name:v1'' [(''name'', PStr name)]) (\<lambda>existing.
       (case existing of
          row # _ \<Rightarrow> act_seq (lift_result (get_item row ''id'')) (\<lambda>pid. act_ret (str_json pid))
        | [] \<Rightarrow>
            act_seq uuid4 (\<lambda>pub_id.
            act_seq (run ''registry:insert_publisher:v1''
                   [(''id'', PStr pub_id), (''name'', PStr name), (''public_key'', PStr public_key)]) (\<lambda>_.
            act_ret pub_id))))"

text \<open>\<open>x if x else "-"\<close> for an optional text.\<close>

definition or_dash :: "string option \<Rightarrow> string" where
  "or_dash x = (case x of None \<Rightarrow> ''-'' | Some s \<Rightarrow> if s = [] then ''-'' else s)"

definition ensure_package ::
  "'s plan_run \<Rightarrow> ('s, string) action \<Rightarrow> string \<Rightarrow> string option \<Rightarrow> string option \<Rightarrow> ('s, string) action" where
  "ensure_package run uuid4 name description repository_url =
     act_seq (run ''registry:package_by_name:v1'' [(''name'', PStr name)]) (\<lambda>existing.
       (case existing of
          row # _ \<Rightarrow> act_seq (lift_result (get_item row ''id'')) (\<lambda>pid. act_ret (str_json pid))
        | [] \<Rightarrow>
            act_seq uuid4 (\<lambda>pkg_id.
            act_seq (run ''registry:insert_package:v1''
                   [(''id'', PStr pkg_id), (''name'', PStr name), (''description'', PStr (or_dash description)),
                    (''repository_url'', PStr (or_dash repository_url))]) (\<lambda>_.
            act_ret pkg_id))))"

record publish_request =
  q_publisher_name :: string
  q_public_key :: string
  q_package_name :: string
  q_version :: string
  q_tree_digest :: string
  q_coverage_pct :: string
  q_proof_digest :: "string option"
  q_description :: "string option"
  q_repository_url :: "string option"

definition publish_package_version ::
  "'s plan_run \<Rightarrow> ('s, string) action \<Rightarrow> (json \<Rightarrow> string result) \<Rightarrow> publish_request \<Rightarrow>
     ('s, package_version_record) action" where
  "publish_package_version run uuid4 to_float q =
     act_seq (ensure_publisher run uuid4 (q_publisher_name q) (q_public_key q)) (\<lambda>pub_id.
     act_seq (ensure_package run uuid4 (q_package_name q) (q_description q) (q_repository_url q)) (\<lambda>pkg_id.
     act_seq uuid4 (\<lambda>ver_id.
     act_seq (run ''registry:insert_package_version:v1''
            [(''id'', PStr ver_id), (''package_id'', PStr pkg_id), (''version'', PStr (q_version q)),
             (''tree_digest'', PStr (q_tree_digest q)), (''proof_digest'', PStr (or_dash (q_proof_digest q))),
             (''coverage_pct'', PStr (q_coverage_pct q)), (''publisher_id'', PStr pub_id)]) (\<lambda>_.
     act_seq (get_package_version run to_float (q_package_name q) (q_version q)) (\<lambda>rec.
     (case rec of None \<Rightarrow> act_raise RuntimeError | Some r \<Rightarrow> act_ret r))))))"

section \<open>The \<open>run\<close> of the code\<close>

record 'w registry_state =
  g_registered :: bool
  g_plans :: plans
  g_embed :: "'w embed_state"

text \<open>\<open>RegistryOltp()\<close> registers the plans; \<open>_run\<close> executes one on the module state.\<close>

definition new_registry :: "'w registry_state \<Rightarrow> 'w registry_state" where
  "new_registry st =
     (let (_, (registered, plans)) = register_registry_plans False (g_registered st, g_plans st)
      in st\<lparr>g_registered := registered, g_plans := plans\<rparr>)"

definition registry_run :: "'w os \<Rightarrow> 'w registry_state plan_run" where
  "registry_run os plan_id params st =
     (let (r, e) = execute os (g_plans st) plan_id params (g_embed st)
      in (ebind r (\<lambda>x. Inr (x_rows x)), st\<lparr>g_embed := e\<rparr>))"

definition registry_ready :: "'w os \<Rightarrow> 'w registry_state \<Rightarrow> bool \<times> 'w registry_state" where
  "registry_ready os st = (let (b, e) = probe_engine_ready os (g_embed st) in (b, st\<lparr>g_embed := e\<rparr>))"

definition engine_available :: "'w os \<Rightarrow> 'w registry_state \<Rightarrow> bool \<times> 'w registry_state" where
  "engine_available os st = (let (b, e) = engine_ready os (g_embed st) in (b, st\<lparr>g_embed := e\<rparr>))"

end
