(* ===== verification/Registry_Props.thy ===== *)
theory Registry_Props
  imports Registry_Service Security_Probes
begin

text \<open>
  The registry service over its plans: registration, what the operations return, that they only
  use registered plans, and the values they cannot store.
\<close>

section \<open>Registration\<close>

definition plans_ready :: "'w registry_state \<Rightarrow> bool" where
  "plans_ready st \<longleftrightarrow> (\<forall>s\<in>set REGISTRY_PLANS. map_of (g_plans st) (s_plan_id s) = Some (plan_of_spec s))"

lemma new_registry_ready: "\<not> g_registered st \<Longrightarrow> plans_ready (new_registry st) \<and> g_registered (new_registry st)"
proof -
  assume no: "\<not> g_registered st"
  obtain ids reg plans where r: "register_registry_plans False (g_registered st, g_plans st) = (ids, reg, plans)"
    by (metis surj_pair)
  have "reg"
    using r no by (auto simp: register_registry_plans_def split: prod.splits)
  moreover have "map_of plans (s_plan_id s) = Some (plan_of_spec s)" if "s \<in> set REGISTRY_PLANS" for s
    using register_registry_lookup [OF r _ that] no by simp
  ultimately show ?thesis
    by (simp add: new_registry_def r plans_ready_def)
qed

lemma new_registry_again: "g_registered st \<Longrightarrow> new_registry st = st"
  by (simp add: new_registry_def register_registry_plans_def)

lemma new_registry_idem: "new_registry (new_registry st) = new_registry st"
  by (cases "g_registered st") (simp_all add: new_registry_again new_registry_ready)

section \<open>Actions that keep a property and the errors they may raise\<close>

text \<open>From a state in \<open>P\<close>, the action stays in \<open>P\<close> and raises no error outside \<open>E\<close>.\<close>

definition act_ok :: "('s \<Rightarrow> bool) \<Rightarrow> (exc \<Rightarrow> bool) \<Rightarrow> ('s, 'a) action \<Rightarrow> bool" where
  "act_ok P E a \<longleftrightarrow> (\<forall>s. P s \<longrightarrow> P (snd (a s)) \<and> (\<forall>e. fst (a s) = Inl e \<longrightarrow> E e))"

named_theorems act_rules \<open>composition of actions that keep a property\<close>

lemma act_ok_ret [act_rules]: "act_ok P E (act_ret x)"
  by (simp add: act_ok_def)

lemma act_ok_raise [act_rules]: "E e \<Longrightarrow> act_ok P E (act_raise e)"
  by (simp add: act_ok_def)

lemma act_ok_lift [act_rules]: "(\<And>e. r = Inl e \<Longrightarrow> E e) \<Longrightarrow> act_ok P E (lift_result r)"
  by (simp add: act_ok_def)

lemma act_ok_seq [act_rules]: "act_ok P E a \<Longrightarrow> (\<And>x. act_ok P E (f x)) \<Longrightarrow> act_ok P E (act_seq a f)"
  by (fastforce simp: act_ok_def act_seq_def split: prod.splits sum.splits)

lemma act_ok_cases:
  "act_ok P E a \<Longrightarrow> P s \<Longrightarrow> a s = (r, s') \<Longrightarrow> P s' \<and> (\<forall>e. r = Inl e \<longrightarrow> E e)"
  by (auto simp: act_ok_def dest: spec [of _ s])

section \<open>The interface of the service\<close>

text \<open>
  What the service relies on: that the calls of its own plans keep \<open>P\<close> and raise only errors in
  \<open>E\<close>. What it raises itself is a missing column, a failed conversion, or a missing record.
\<close>

locale plan_service =
  fixes run :: "'s plan_run" and uuid4 :: "('s, string) action" and to_float :: "json \<Rightarrow> string result"
    and P :: "'s \<Rightarrow> bool" and E :: "exc \<Rightarrow> bool"
  assumes run_ok: "s \<in> set REGISTRY_PLANS \<Longrightarrow> act_ok P E (run (s_plan_id s) ps)"
    and uuid_ok: "act_ok P E uuid4"
    and key_exc: "E (KeyError k)" and float_exc: "to_float v = Inl e \<Longrightarrow> E e" and runtime_exc: "E RuntimeError"
begin

lemma runs_ok:
  "act_ok P E (run ''registry:package_by_name:v1'' ps)" "act_ok P E (run ''registry:versions_for_package:v1'' ps)"
  "act_ok P E (run ''registry:publisher_by_name:v1'' ps)" "act_ok P E (run ''registry:insert_publisher:v1'' ps)"
  "act_ok P E (run ''registry:insert_package:v1'' ps)" "act_ok P E (run ''registry:insert_package_version:v1'' ps)"
  using run_ok [of PACKAGE_BY_NAME] run_ok [of VERSIONS_FOR_PACKAGE] run_ok [of PUBLISHER_BY_NAME]
    run_ok [of INSERT_PUBLISHER] run_ok [of INSERT_PACKAGE] run_ok [of INSERT_PACKAGE_VERSION]
  by (simp_all add: REGISTRY_PLANS_def registry_plan_defs)

lemma get_item_exc: "get_item row k = Inl e \<Longrightarrow> E e"
  by (auto simp: get_item_def key_exc split: option.splits)

lemma row_exc: "row_to_record to_float name row = Inl e \<Longrightarrow> E e"
  by (auto simp: row_to_record_def Let_def ebind_eq_Inl float_exc dest: get_item_exc)

lemma find_version_exc: "find_version to_float name pid version rows = Inl e \<Longrightarrow> E e"
  by (induction rows) (auto simp: ebind_eq_Inl row_exc split: if_splits)

lemma emap_row_exc: "emap (row_to_record to_float name) rows = Inl e \<Longrightarrow> E e"
  using emap_Inl row_exc by metis

lemmas service_rules = act_rules runs_ok uuid_ok runtime_exc

lemma get_ok: "act_ok P E (get_package_version run to_float name version)"
  unfolding get_package_version_def
  by (auto intro!: service_rules dest: get_item_exc find_version_exc split: list.split)

lemma list_ok: "act_ok P E (list_package_versions run to_float name include_yanked)"
  unfolding list_package_versions_def
  by (auto intro!: service_rules simp: ebind_eq_Inl split: list.split) (erule get_item_exc emap_row_exc)+

lemma ensure_publisher_ok: "act_ok P E (ensure_publisher run uuid4 name key)"
  unfolding ensure_publisher_def
  by (auto intro!: service_rules dest: get_item_exc split: list.split)

lemma ensure_package_ok: "act_ok P E (ensure_package run uuid4 name d u)"
  unfolding ensure_package_def
  by (auto intro!: service_rules dest: get_item_exc split: list.split)

lemma publish_ok: "act_ok P E (publish_package_version run uuid4 to_float q)"
  unfolding publish_package_version_def
  by (auto intro!: service_rules ensure_publisher_ok ensure_package_ok get_ok split: option.split)

text \<open>A publication that succeeds has run the insertion, with the request's values, in a state
  in \<open>P\<close>.\<close>

lemma publish_inserts:
  assumes "publish_package_version run uuid4 to_float q s = (Inr r, s')" "P s"
  shows "\<exists>s1 s2 x ver pkg pub. P s1 \<and> run ''registry:insert_package_version:v1''
    [(''id'', PStr ver), (''package_id'', PStr pkg), (''version'', PStr (q_version q)),
     (''tree_digest'', PStr (q_tree_digest q)), (''proof_digest'', PStr (or_dash (q_proof_digest q))),
     (''coverage_pct'', PStr (q_coverage_pct q)), (''publisher_id'', PStr pub)] s1 = (Inr x, s2)"
proof -
  obtain pub s1 pkg s2 ver s3 x s4 where
    "ensure_publisher run uuid4 (q_publisher_name q) (q_public_key q) s = (Inr pub, s1)"
    "ensure_package run uuid4 (q_package_name q) (q_description q) (q_repository_url q) s1 = (Inr pkg, s2)"
    "uuid4 s2 = (Inr ver, s3)" and run: "run ''registry:insert_package_version:v1''
      [(''id'', PStr ver), (''package_id'', PStr pkg), (''version'', PStr (q_version q)),
       (''tree_digest'', PStr (q_tree_digest q)), (''proof_digest'', PStr (or_dash (q_proof_digest q))),
       (''coverage_pct'', PStr (q_coverage_pct q)), (''publisher_id'', PStr pub)] s3 = (Inr x, s4)"
    using assms(1) by (auto simp: publish_package_version_def act_seq_eq_Inr)
  with assms(2) have "P s3"
    using act_ok_cases ensure_publisher_ok ensure_package_ok uuid_ok by metis
  with run show ?thesis by blast
qed

end

section \<open>The service on the plan registry\<close>

text \<open>Fresh ids come from the system and touch nothing else.\<close>

definition registry_uuid4 :: "('w \<Rightarrow> string \<times> 'w) \<Rightarrow> ('w registry_state, string) action" where
  "registry_uuid4 u st =
     (let (s, w) = u (world (g_embed st)) in (Inr s, st\<lparr>g_embed := (g_embed st)\<lparr>world := w\<rparr>\<rparr>))"

text \<open>An unknown plan is not what an operation can raise by itself.\<close>

definition service_exc :: "(json \<Rightarrow> string result) \<Rightarrow> exc \<Rightarrow> bool" where
  "service_exc to_float e \<longleftrightarrow> (\<forall>pid. e = UnknownPlan pid \<longrightarrow> (\<exists>v. to_float v = Inl e))"

lemma registry_run_plans [simp]: "g_plans (snd (registry_run os pid ps st)) = g_plans st"
  by (simp add: registry_run_def split: prod.split)

lemma plans_ready_cong: "g_plans st' = g_plans st \<Longrightarrow> plans_ready st' = plans_ready st"
  by (simp add: plans_ready_def)

lemma registry_run_eq:
  assumes "plans_ready st" "s \<in> set REGISTRY_PLANS"
  shows "fst (registry_run os (s_plan_id s) ps st) =
    (if accepts (plan_of_spec s) ps
     then fst (run_engine os (s_sql s) (bound_values (plan_of_spec s) ps) (g_embed st))
     else Inl ParameterMismatch)"
proof -
  have "map_of (g_plans st) (s_plan_id s) = Some (plan_of_spec s)"
    using assms by (simp add: plans_ready_def)
  moreover have "rp_sql (plan_of_spec s) = s_sql s" by (simp add: plan_of_spec_def)
  ultimately show ?thesis
    by (auto simp: registry_run_def execute_eq ebind_def Let_def split: prod.splits sum.splits)
qed

lemma run_engine_known: "fst (run_engine os sql ps st) \<noteq> Inl (UnknownPlan pid)"
  using run_engine_exc [of os sql ps st "UnknownPlan pid"] by (auto simp: engine_exc_def)

interpretation service: plan_service "registry_run os" "registry_uuid4 u" to_float plans_ready "service_exc to_float"
  for os :: "'w os" and u to_float
proof
  fix s ps assume s: "s \<in> set REGISTRY_PLANS"
  show "act_ok plans_ready (service_exc to_float) (registry_run os (s_plan_id s) ps)"
    unfolding act_ok_def
  proof (intro allI impI conjI)
    fix st :: "'w registry_state" and e assume st: "plans_ready st"
    show "plans_ready (snd (registry_run os (s_plan_id s) ps st))"
      using st plans_ready_cong by (metis registry_run_plans)
    assume e: "fst (registry_run os (s_plan_id s) ps st) = Inl e"
    have "e \<noteq> UnknownPlan pid" for pid
      using e run_engine_known [of os "s_sql s" _ "g_embed st" pid] unfolding registry_run_eq [OF st s]
      by (auto split: if_splits)
    then show "service_exc to_float e" by (simp add: service_exc_def)
  qed
next
  show "act_ok plans_ready (service_exc to_float) (registry_uuid4 u)"
    by (simp add: act_ok_def registry_uuid4_def plans_ready_def split: prod.split)
qed (auto simp: service_exc_def)

section \<open>What the operations return\<close>

lemma row_to_record_Inr:
  assumes "row_to_record to_float name row = Inr r"
  shows "v_name r = name" "map_of row ''version'' = Some v \<Longrightarrow> v_version r = str_json v"
    "v_yanked r = yanked_value (get_default row ''yanked'' (JBool False))"
    "\<exists>v. map_of row ''version'' = Some v"
  using assms by (auto simp: row_to_record_def Let_def ebind_eq_Inr get_item_def split: option.splits)

lemma find_version_Inr:
  "find_version to_float name pid version rows = Inr (Some r) \<Longrightarrow> v_name r = name \<and> v_version r = version"
proof (induction rows)
  case (Cons row rows)
  show ?case
  proof (cases "str_json (get_default row ''version'' JNull) = version")
    case True
    let ?row = "AList.update ''package_id'' (JStr pid) row"
    have r: "row_to_record to_float name ?row = Inr r"
      using Cons.prems True by (auto simp: ebind_eq_Inr)
    obtain v where "map_of ?row ''version'' = Some v" using row_to_record_Inr(4) [OF r] by blast
    with row_to_record_Inr(1,2) [OF r] True show ?thesis
      by (simp add: map_of_update_dict get_default_def)
  next
    case False
    with Cons show ?thesis by simp
  qed
qed simp

lemma get_package_version_Inr:
  assumes "get_package_version run to_float name version s = (Inr (Some r), s')"
  shows "v_name r = name \<and> v_version r = version"
proof -
  obtain pkg_rows s1 where "run ''registry:package_by_name:v1'' [(''name'', PStr name)] s = (Inr pkg_rows, s1)"
    using assms by (auto simp: get_package_version_def act_seq_eq_Inr)
  with assms show ?thesis
    by (cases pkg_rows) (auto simp: get_package_version_def act_seq_eq_Inr dest: find_version_Inr)
qed

lemma publish_Inr:
  assumes "publish_package_version run uuid4 to_float q s = (Inr r, s')"
  shows "v_name r = q_package_name q \<and> v_version r = q_version q"
proof -
  obtain rec s1 s2 where get: "get_package_version run to_float (q_package_name q) (q_version q) s1 = (Inr rec, s2)"
    and ret: "(case rec of None \<Rightarrow> act_raise RuntimeError | Some r \<Rightarrow> act_ret r) s2 = (Inr r, s')"
    using assms unfolding publish_package_version_def act_seq_eq_Inr by (elim exE conjE) (rule that)
  from ret have "rec = Some r" by (cases rec) simp_all
  with get have "get_package_version run to_float (q_package_name q) (q_version q) s1 = (Inr (Some r), s2)" by simp
  then show ?thesis by (rule get_package_version_Inr)
qed

text \<open>Leaving out the yanked versions is a filter of the complete list.\<close>

lemma list_filter:
  assumes "list_package_versions run to_float name True s = (Inr rs, s')"
  shows "list_package_versions run to_float name False s = (Inr (filter (\<lambda>r. \<not> v_yanked r) rs), s')"
proof -
  obtain pkg_rows s1 where p: "run ''registry:package_by_name:v1'' [(''name'', PStr name)] s = (Inr pkg_rows, s1)"
    using assms by (auto simp: list_package_versions_def act_seq_eq_Inr)
  show ?thesis
  proof (cases pkg_rows)
    case Nil
    with assms p show ?thesis by (simp add: list_package_versions_def)
  next
    case (Cons pkg rest)
    with assms p obtain pid rows s2 rs0 where g: "get_item pkg ''id'' = Inr pid"
      and v: "run ''registry:versions_for_package:v1'' [(''package_id'', PStr (str_json pid))] s1 = (Inr rows, s2)"
      and rs0: "emap (row_to_record to_float name) rows = Inr rs0" "keep_records True rs0 = rs" "s2 = s'"
      by (auto simp: list_package_versions_def act_seq_eq_Inr ebind_eq_Inr)
    have "rs0 = rs" using rs0(2) by (simp add: keep_records_def)
    then show ?thesis
      unfolding list_package_versions_def
      by (simp add: act_seq_def p v Cons g rs0 keep_records_def)
  qed
qed

lemma list_names:
  assumes "list_package_versions run to_float name include_yanked s = (Inr rs, s')"
  shows "\<forall>r\<in>set rs. v_name r = name"
proof -
  obtain pkg_rows s1 where p: "run ''registry:package_by_name:v1'' [(''name'', PStr name)] s = (Inr pkg_rows, s1)"
    using assms by (auto simp: list_package_versions_def act_seq_eq_Inr)
  with assms show ?thesis
    by (cases pkg_rows)
      (auto simp: list_package_versions_def act_seq_eq_Inr keep_records_def ebind_eq_Inr
        dest!: emap_set intro: row_to_record_Inr(1))
qed

section \<open>Values that cannot be stored\<close>

lemma accepts_not_verbatim: "accepts plan ps \<Longrightarrow> (k, PStr v) \<in> set ps \<Longrightarrow> \<not> in_str v (rp_sql plan)"
  by (auto simp: accepts_def verbatim_def)

lemma insert_rejects:
  assumes "plans_ready st" "(k, PStr v) \<in> set ps" "in_str v (s_sql INSERT_PACKAGE_VERSION)"
  shows "fst (registry_run os ''registry:insert_package_version:v1'' ps st) = Inl ParameterMismatch"
proof -
  have s: "INSERT_PACKAGE_VERSION \<in> set REGISTRY_PLANS" by (simp add: REGISTRY_PLANS_def)
  have "\<not> accepts (plan_of_spec INSERT_PACKAGE_VERSION) ps"
    using accepts_not_verbatim assms(2,3) by (fastforce simp: plan_of_spec_def)
  with registry_run_eq [OF assms(1) s, of os ps] show ?thesis by (simp add: INSERT_PACKAGE_VERSION_def)
qed

lemma publish_rejects:
  assumes "plans_ready st" "v \<in> {q_version q, q_tree_digest q, q_coverage_pct q, or_dash (q_proof_digest q)}"
    and "in_str v (s_sql INSERT_PACKAGE_VERSION)"
  shows "fst (publish_package_version (registry_run os) (registry_uuid4 u) to_float q st) \<noteq> Inr r"
proof
  let ?pub = "publish_package_version (registry_run os) (registry_uuid4 u) to_float q"
  assume "fst (?pub st) = Inr r"
  then have "?pub st = (Inr r, snd (?pub st))" by (metis prod.collapse)
  from service.publish_inserts [OF this assms(1)] obtain s1 s2 x ver pkg pub where s1: "plans_ready s1"
    and run: "registry_run os ''registry:insert_package_version:v1''
      [(''id'', PStr ver), (''package_id'', PStr pkg), (''version'', PStr (q_version q)),
       (''tree_digest'', PStr (q_tree_digest q)), (''proof_digest'', PStr (or_dash (q_proof_digest q))),
       (''coverage_pct'', PStr (q_coverage_pct q)), (''publisher_id'', PStr pub)] s1 = (Inr x, s2)"
    (is "registry_run os _ ?ps s1 = _")
    by blast
  obtain k where "(k, PStr v) \<in> set ?ps"
    using assms(2) that [of "''version''"] that [of "''tree_digest''"] that [of "''coverage_pct''"] that [of "''proof_digest''"]
    by (elim insertE) simp_all
  from insert_rejects [OF s1 this assms(3), of os] run show False by simp
qed

text \<open>No proof, an empty proof and the proof \<open>"-"\<close> are published alike.\<close>

lemma publish_sentinel:
  "publish_package_version run uuid4 to_float (q\<lparr>q_proof_digest := None\<rparr>) =
   publish_package_version run uuid4 to_float (q\<lparr>q_proof_digest := Some ''-''\<rparr>)"
  by (simp add: publish_package_version_def or_dash_def)

section \<open>After the plans are cleared\<close>

lemma cleared_unknown:
  assumes "g_registered st"
  shows "get_package_version (registry_run os) to_float name version
      (new_registry (st\<lparr>g_plans := clear_plans (g_plans st)\<rparr>)) =
    (Inl (UnknownPlan ''registry:package_by_name:v1''), st\<lparr>g_plans := []\<rparr>)"
proof -
  let ?st = "st\<lparr>g_plans := []\<rparr>"
  have "registry_run os pid ps ?st = (Inl (UnknownPlan pid), ?st)" for pid ps
    by (simp add: registry_run_def execute_def)
  then have "get_package_version (registry_run os) to_float name version ?st =
      (Inl (UnknownPlan ''registry:package_by_name:v1''), ?st)"
    unfolding get_package_version_def by (rule act_seq_Inl)
  with assms show ?thesis by (simp add: new_registry_again clear_plans_def)
qed

end
