(* ===== verification/Embed_Session.thy ===== *)
theory Embed_Session
  imports Liorm_Execute
begin

text \<open>
  The session of \<open>liorm/embed_engine.py\<close>: the invariant of the module's globals, that
  \<open>ensure_session\<close> answers the same ever after, and the double-checked locking of
  \<open>ensure_session\<close> as an interleaving of threads: the engine is opened at most once (again only
  after a call that raised), all threads get the same answer, no thread is stuck, and every run ends.
\<close>

section \<open>One thread\<close>

definition embed_inv :: "'w embed_state \<Rightarrow> bool" where
  "embed_inv st \<longleftrightarrow> (session st \<noteq> None \<longleftrightarrow> ready st = Some True)"

definition initial_globals :: "'w \<Rightarrow> 'w embed_state" where
  "initial_globals w = \<lparr>session = None, session_dir = None, ready = None, world = w\<rparr>"

lemma initial_inv: "embed_inv (initial_globals w)"
  by (simp add: embed_inv_def initial_globals_def)

lemma default_data_dir_globals:
  "default_data_dir os st = (d, st') \<Longrightarrow> session st' = session st \<and> ready st' = ready st"
  by (auto simp: default_data_dir_def Let_def split: option.splits prod.splits)

lemma ensure_session_cases:
  assumes "ensure_session os st = (r, st')" "embed_inv st"
  shows "(r = None \<and> ready st' = Some False \<and> session st' = None) \<or>
    (\<exists>d. r = Some d \<and> session st' = Some d \<and> ready st' = Some True)"
proof -
  obtain d st1 where d: "default_data_dir os st = (d, st1)" by (cases "default_data_dir os st")
  obtain ok w where o: "open_and_migrate os d (world st1) = (ok, w)"
    by (cases "open_and_migrate os d (world st1)")
  show ?thesis
  proof (cases "session st")
    case (Some s)
    with assms have "r = Some s" "st' = st" "ready st = Some True"
      by (simp_all add: ensure_session_def embed_inv_def)
    with Some show ?thesis by simp
  next
    case None
    with assms show ?thesis
      by (cases "ready st = Some False"; cases ok)
        (auto simp: ensure_session_def init_session_def d o Let_def)
  qed
qed

lemma ensure_session_inv: "ensure_session os st = (r, st') \<Longrightarrow> embed_inv st \<Longrightarrow> embed_inv st'"
  using ensure_session_cases [of os st r st'] by (auto simp: embed_inv_def)

lemma ensure_session_stable:
  "ensure_session os st = (r, st') \<Longrightarrow> embed_inv st \<Longrightarrow> ensure_session os st' = (r, st')"
  using ensure_session_cases [of os st r st'] by (auto simp: ensure_session_def)

lemma session_exec_globals:
  "session_exec os d sql ps st = (r, st') \<Longrightarrow> session st' = session st \<and> ready st' = ready st \<and> session_dir st' = session_dir st"
  by (auto simp: session_exec_def split: prod.splits)

lemma reset_inv: "embed_inv (reset_session_for_tests os st)"
  by (simp add: reset_session_for_tests_def embed_inv_def Let_def split: option.split)

text \<open>\<open>_run_engine\<close> asks for the session twice; the second time changes nothing.\<close>

lemma run_engine_eq:
  assumes "embed_inv st"
  shows "run_engine os sql bound st =
    (let (s, st1) = ensure_session os st in
     (case s of None \<Rightarrow> (Inl RuntimeError, st1) | Some d \<Rightarrow> session_exec os d sql bound st1))"
proof -
  obtain s st1 where e: "ensure_session os st = (s, st1)" by (cases "ensure_session os st")
  from ensure_session_stable [OF e assms] show ?thesis
    by (cases s) (simp_all add: run_engine_def engine_ready_def execute_sql_def e)
qed

lemma run_engine_inv: "run_engine os sql bound st = (r, st') \<Longrightarrow> embed_inv st \<Longrightarrow> embed_inv st'"
  using session_exec_globals ensure_session_inv
  by (fastforce simp: run_engine_eq embed_inv_def split: prod.splits option.splits)

lemma execute_inv: "execute os plans pid ps st = (r, st') \<Longrightarrow> embed_inv st \<Longrightarrow> embed_inv st'"
  using run_engine_inv by (fastforce simp: execute_eq Let_def split: option.splits if_splits prod.splits)

section \<open>Interleaved threads\<close>

text \<open>
  One program counter per line of \<open>ensure_session\<close> that reads or writes a global, the lock or
  the engine. \<open>if _SESSION: return _SESSION\<close> reads the global twice. Opening the engine may raise
  (\<open>OSError\<close> of \<open>subprocess.run\<close>, of the directory or of the catalog file): the exception passes
  through the \<open>with\<close> statement, which releases the lock, and no global is written.
\<close>

datatype pc =
    Read_ready | Read_session | Reread_session | Acquire
  | Locked_session | Locked_reread | Locked_ready | Opening
  | Open_failed | Clear_session | Open_done | Set_ready
  | Release "nat option" | Returned "nat option" | Unwinding | Raised

text \<open>A session is identified with the thread that opened it; \<open>sh_opens\<close> counts the calls of
  \<open>open_and_migrate\<close> and \<open>sh_raises\<close> those that raised.\<close>

record shared =
  sh_session :: "nat option"
  sh_ready :: "bool option"
  sh_lock :: "nat option"
  sh_opens :: nat
  sh_raises :: nat
  sh_pc :: "nat \<Rightarrow> pc"

definition goto :: "shared \<Rightarrow> nat \<Rightarrow> pc \<Rightarrow> shared" where
  "goto c t p = c\<lparr>sh_pc := (sh_pc c)(t := p)\<rparr>"

inductive step :: "shared \<Rightarrow> shared \<Rightarrow> bool" where
  read_ready: "sh_pc c t = Read_ready \<Longrightarrow>
     step c (goto c t (if sh_ready c = Some False then Returned None else Read_session))"
| read_session: "sh_pc c t = Read_session \<Longrightarrow>
     step c (goto c t (if sh_session c \<noteq> None then Reread_session else Acquire))"
| reread_session: "sh_pc c t = Reread_session \<Longrightarrow> step c (goto c t (Returned (sh_session c)))"
| acquire: "sh_pc c t = Acquire \<Longrightarrow> sh_lock c = None \<Longrightarrow> step c (goto (c\<lparr>sh_lock := Some t\<rparr>) t Locked_session)"
| locked_session: "sh_pc c t = Locked_session \<Longrightarrow>
     step c (goto c t (if sh_session c \<noteq> None then Locked_reread else Locked_ready))"
| locked_reread: "sh_pc c t = Locked_reread \<Longrightarrow> step c (goto c t (Release (sh_session c)))"
| locked_ready_no: "sh_pc c t = Locked_ready \<Longrightarrow> sh_ready c = Some False \<Longrightarrow> step c (goto c t (Release None))"
| locked_ready_open: "sh_pc c t = Locked_ready \<Longrightarrow> sh_ready c \<noteq> Some False \<Longrightarrow>
     step c (goto (c\<lparr>sh_opens := sh_opens c + 1\<rparr>) t Opening)"
| opened: "sh_pc c t = Opening \<Longrightarrow> step c (goto c t (if ok then Open_done else Open_failed))"
| open_raised: "sh_pc c t = Opening \<Longrightarrow> step c (goto (c\<lparr>sh_raises := sh_raises c + 1\<rparr>) t Unwinding)"
| unwound: "sh_pc c t = Unwinding \<Longrightarrow> step c (goto (c\<lparr>sh_lock := None\<rparr>) t Raised)"
| open_failed: "sh_pc c t = Open_failed \<Longrightarrow> step c (goto (c\<lparr>sh_ready := Some False\<rparr>) t Clear_session)"
| clear_session: "sh_pc c t = Clear_session \<Longrightarrow> step c (goto (c\<lparr>sh_session := None\<rparr>) t (Release None))"
| open_done: "sh_pc c t = Open_done \<Longrightarrow> step c (goto (c\<lparr>sh_session := Some t\<rparr>) t Set_ready)"
| set_ready: "sh_pc c t = Set_ready \<Longrightarrow> step c (goto (c\<lparr>sh_ready := Some True\<rparr>) t (Release (Some t)))"
| release: "sh_pc c t = Release r \<Longrightarrow> step c (goto (c\<lparr>sh_lock := None\<rparr>) t (Returned r))"

text \<open>A fresh process: every thread is about to call \<open>ensure_session\<close>.\<close>

definition idle :: shared where
  "idle = \<lparr>sh_session = None, sh_ready = None, sh_lock = None, sh_opens = 0, sh_raises = 0, sh_pc = (\<lambda>_. Read_ready)\<rparr>"

inductive reachable :: "shared \<Rightarrow> bool" where
  start: "reachable idle"
| more: "reachable c \<Longrightarrow> step c c' \<Longrightarrow> reachable c'"

inductive_cases stepE: "step c c'"

text \<open>The call is over.\<close>

fun finished :: "pc \<Rightarrow> bool" where
  "finished (Returned r) = True"
| "finished Raised = True"
| "finished _ = False"

text \<open>The counters between \<open>acquire\<close> and \<open>release\<close>, and those of the thread that opens.\<close>

fun holds_lock :: "pc \<Rightarrow> bool" where
  "holds_lock Locked_session = True"
| "holds_lock Locked_reread = True"
| "holds_lock Locked_ready = True"
| "holds_lock Opening = True"
| "holds_lock Open_failed = True"
| "holds_lock Clear_session = True"
| "holds_lock Open_done = True"
| "holds_lock Set_ready = True"
| "holds_lock (Release r) = True"
| "holds_lock Unwinding = True"
| "holds_lock _ = False"

fun is_opening :: "pc \<Rightarrow> bool" where
  "is_opening Opening = True"
| "is_opening Open_failed = True"
| "is_opening Open_done = True"
| "is_opening _ = False"

text \<open>What a thread's counter says about the globals.\<close>

fun answer_ok :: "nat option \<Rightarrow> shared \<Rightarrow> bool" where
  "answer_ok None c \<longleftrightarrow> sh_ready c = Some False"
| "answer_ok (Some s) c \<longleftrightarrow> sh_session c = Some s"

fun pc_ok :: "nat \<Rightarrow> pc \<Rightarrow> shared \<Rightarrow> bool" where
  "pc_ok t Reread_session c \<longleftrightarrow> sh_session c \<noteq> None"
| "pc_ok t Locked_reread c \<longleftrightarrow> sh_session c \<noteq> None"
| "pc_ok t Locked_ready c \<longleftrightarrow> sh_session c = None"
| "pc_ok t Opening c \<longleftrightarrow> sh_session c = None \<and> sh_ready c = None \<and> sh_opens c = sh_raises c + 1"
| "pc_ok t Open_failed c \<longleftrightarrow> sh_session c = None \<and> sh_ready c = None \<and> sh_opens c = sh_raises c + 1"
| "pc_ok t Open_done c \<longleftrightarrow> sh_session c = None \<and> sh_ready c = None \<and> sh_opens c = sh_raises c + 1"
| "pc_ok t Clear_session c \<longleftrightarrow> sh_session c = None \<and> sh_ready c = Some False"
| "pc_ok t Set_ready c \<longleftrightarrow> sh_session c = Some t"
| "pc_ok t (Release r) c \<longleftrightarrow> answer_ok r c"
| "pc_ok t (Returned r) c \<longleftrightarrow> answer_ok r c"
| "pc_ok t Unwinding c \<longleftrightarrow> 0 < sh_raises c"
| "pc_ok t Raised c \<longleftrightarrow> 0 < sh_raises c"
| "pc_ok t _ c \<longleftrightarrow> True"

definition globals_ok :: "shared \<Rightarrow> bool" where
  "globals_ok c \<longleftrightarrow>
     sh_raises c \<le> sh_opens c \<and> sh_opens c \<le> sh_raises c + 1 \<and>
     (sh_opens c = sh_raises c \<longrightarrow> sh_session c = None \<and> sh_ready c = None) \<and>
     (sh_ready c = Some False \<longrightarrow> sh_session c = None) \<and>
     (sh_ready c = Some True \<longrightarrow> sh_session c \<noteq> None) \<and>
     (sh_opens c = sh_raises c + 1 \<and> sh_session c = None \<and> sh_ready c \<noteq> Some False \<longrightarrow>
        (\<exists>t. is_opening (sh_pc c t)))"

definition conc_inv :: "shared \<Rightarrow> bool" where
  "conc_inv c \<longleftrightarrow> globals_ok c \<and> (\<forall>t. holds_lock (sh_pc c t) \<longleftrightarrow> sh_lock c = Some t) \<and>
     (\<forall>t. pc_ok t (sh_pc c t) c)"

section \<open>The invariant of the interleaving\<close>

lemma goto_simps [simp]:
  "sh_session (goto c t p) = sh_session c" "sh_ready (goto c t p) = sh_ready c"
  "sh_lock (goto c t p) = sh_lock c" "sh_opens (goto c t p) = sh_opens c" "sh_raises (goto c t p) = sh_raises c"
  "sh_pc (goto c t p) = (sh_pc c)(t := p)"
  by (simp_all add: goto_def)

text \<open>The counters that fix the globals belong to the thread that holds the lock.\<close>

lemma pc_ok_goto [simp]: "pc_ok u p (goto c t q) = pc_ok u p c"
  by (cases p) (auto elim!: answer_ok.elims)

lemma pc_ok_cong:
  "sh_session c' = sh_session c \<Longrightarrow> sh_ready c' = sh_ready c \<Longrightarrow> sh_opens c' = sh_opens c \<Longrightarrow>
     sh_raises c' = sh_raises c \<Longrightarrow> pc_ok u p c' = pc_ok u p c"
proof -
  assume same: "sh_session c' = sh_session c" "sh_ready c' = sh_ready c" "sh_opens c' = sh_opens c"
    "sh_raises c' = sh_raises c"
  then have "answer_ok r c' = answer_ok r c" for r
    by (cases r) simp_all
  with same show ?thesis by (cases p) simp_all
qed

text \<open>A session once stored stays, and so does a failure: this is all the other threads rely on.\<close>

definition keeps :: "shared \<Rightarrow> shared \<Rightarrow> bool" where
  "keeps c c' \<longleftrightarrow> (sh_session c \<noteq> None \<longrightarrow> sh_session c' = sh_session c) \<and>
     (sh_ready c = Some False \<longrightarrow> sh_ready c' = Some False) \<and> sh_raises c \<le> sh_raises c'"

lemma pc_ok_keeps:
  assumes "pc_ok u p c" "\<not> holds_lock p" "keeps c c'"
  shows "pc_ok u p c'"
proof -
  have "answer_ok r c'" if "answer_ok r c" for r
    using that assms(3) by (cases r) (auto simp: keeps_def)
  with assms show ?thesis by (cases p) (auto simp: keeps_def)
qed

lemma conc_invD: "conc_inv c \<Longrightarrow> globals_ok c" "conc_inv c \<Longrightarrow> pc_ok t (sh_pc c t) c"
  "conc_inv c \<Longrightarrow> holds_lock (sh_pc c t) \<longleftrightarrow> sh_lock c = Some t"
  by (simp_all add: conc_inv_def)

lemma conc_inv_at:
  "conc_inv c \<Longrightarrow> sh_pc c t = p \<Longrightarrow> pc_ok t p c \<and> globals_ok c \<and> (holds_lock p \<longrightarrow> sh_lock c = Some t)"
  by (auto simp: conc_inv_def)

lemma conc_inv_step:
  assumes inv: "conc_inv c" and pc: "sh_pc c' = (sh_pc c)(t := p)"
    and lock: "sh_lock c' = (if holds_lock p then Some t else if holds_lock (sh_pc c t) then None else sh_lock c)"
    and free: "holds_lock p \<Longrightarrow> \<not> holds_lock (sh_pc c t) \<Longrightarrow> sh_lock c = None"
    and same: "\<not> holds_lock (sh_pc c t) \<Longrightarrow>
      sh_session c' = sh_session c \<and> sh_ready c' = sh_ready c \<and> sh_opens c' = sh_opens c \<and> sh_raises c' = sh_raises c"
    and keeps: "keeps c c'" and ok: "pc_ok t p c'" and gl: "globals_ok c'"
  shows "conc_inv c'"
proof -
  have holds: "holds_lock (sh_pc c u) \<longleftrightarrow> sh_lock c = Some u" and pcs: "pc_ok u (sh_pc c u) c" for u
    using inv by (auto simp: conc_inv_def)
  have "pc_ok u (sh_pc c u) c'" if "u \<noteq> t" for u
  proof (cases "holds_lock (sh_pc c t)")
    case True
    then have "\<not> holds_lock (sh_pc c u)" using holds that by simp
    then show ?thesis by (rule pc_ok_keeps [OF pcs _ keeps])
  next
    case False
    then show ?thesis using same pcs pc_ok_cong [of c' c] by simp
  qed
  moreover have "holds_lock (sh_pc c' u) \<longleftrightarrow> sh_lock c' = Some u" for u
    using holds [of u] holds [of t] lock free by (auto simp: pc)
  ultimately show ?thesis
    using ok gl by (simp add: conc_inv_def pc)
qed

text \<open>The global clause after a step of \<open>t\<close>, when \<open>t\<close> was not the opening thread or still is.\<close>

lemma opening_unique: "conc_inv c \<Longrightarrow> is_opening (sh_pc c t) \<Longrightarrow> holds_lock (sh_pc c u) \<Longrightarrow> u = t"
proof -
  assume inv: "conc_inv c" and o: "is_opening (sh_pc c t)" and u: "holds_lock (sh_pc c u)"
  from o have "holds_lock (sh_pc c t)" by (cases "sh_pc c t") simp_all
  with inv u show "u = t" by (simp add: conc_inv_def)
qed

lemma globals_ok_move:
  assumes "globals_ok c" "sh_session c' = sh_session c" "sh_ready c' = sh_ready c" "sh_opens c' = sh_opens c"
    and "sh_raises c' = sh_raises c" "sh_pc c' = (sh_pc c)(t := p)" "is_opening (sh_pc c t) \<longrightarrow> is_opening p"
  shows "globals_ok c'"
proof -
  have "\<exists>u. is_opening (sh_pc c' u)" if ex: "\<exists>u. is_opening (sh_pc c u)"
  proof -
    obtain u where "is_opening (sh_pc c u)" using ex by blast
    then have "is_opening (sh_pc c' u)"
      using assms(6,7) by (cases "u = t") simp_all
    then show ?thesis ..
  qed
  with assms(1) show ?thesis
    unfolding globals_ok_def assms(2-5) by blast
qed

lemma move_inv:
  assumes inv: "conc_inv c" and q: "sh_pc c t = q"
    and p: "holds_lock p = holds_lock q" "is_opening q \<longrightarrow> is_opening p" "pc_ok t p c"
  shows "conc_inv (goto c t p)"
proof (rule conc_inv_step [OF inv, where t = t and p = p])
  show "globals_ok (goto c t p)"
    by (rule globals_ok_move [OF conc_invD(1) [OF inv], where t = t and p = p]) (simp_all add: q p(2))
  show "sh_lock (goto c t p) = (if holds_lock p then Some t else if holds_lock (sh_pc c t) then None else sh_lock c)"
    using conc_inv_at [OF inv q] p q by simp
qed (use p q in \<open>simp_all add: keeps_def\<close>)

text \<open>A step of the holder of the lock that writes a global.\<close>

lemma write_inv:
  assumes "conc_inv c" "sh_pc c t = q" "holds_lock q" "holds_lock p"
    and "sh_pc c' = (sh_pc c)(t := p)" "sh_lock c' = sh_lock c"
    and "conc_inv c \<Longrightarrow> pc_ok t q c \<Longrightarrow> globals_ok c \<Longrightarrow> keeps c c' \<and> pc_ok t p c' \<and> globals_ok c'"
  shows "conc_inv c'"
proof (rule conc_inv_step [OF assms(1), where t = t and p = p])
  have at: "pc_ok t q c" "globals_ok c" "sh_lock c = Some t" using conc_inv_at [OF assms(1,2)] assms(3) by simp_all
  then show "sh_lock c' = (if holds_lock p then Some t else if holds_lock (sh_pc c t) then None else sh_lock c)"
    using assms(4,6) by simp
  show "keeps c c'" "pc_ok t p c'" "globals_ok c'" using assms(7) [OF assms(1) at(1,2)] by simp_all
qed (use assms in simp_all)

lemma step_inv: "step c c' \<Longrightarrow> conc_inv c \<Longrightarrow> conc_inv c'"
proof (induction rule: step.induct)
  case (locked_ready_open c t)
  have gl: "globals_ok c" and pcs: "pc_ok t (sh_pc c t) c"
    using locked_ready_open.prems by (rule conc_invD)+
  have "\<not> is_opening (sh_pc c u)" for u
    using opening_unique [OF locked_ready_open.prems, of u t] locked_ready_open.hyps by auto
  then have "sh_opens c = sh_raises c"
    using gl pcs locked_ready_open.hyps by (auto simp: globals_ok_def)
  moreover have "sh_lock c = Some t"
    using conc_invD(3) [OF locked_ready_open.prems, of t] locked_ready_open.hyps by simp
  ultimately show ?case
    using locked_ready_open.hyps gl pcs
    by (intro conc_inv_step [OF locked_ready_open.prems, where t = t and p = Opening])
      (auto simp: keeps_def globals_ok_def intro: exI [of _ t])
next
  case (acquire c t)
  then show ?case
    by (intro conc_inv_step [OF acquire.prems, where t = t and p = Locked_session])
      (auto simp: keeps_def conc_inv_def intro: globals_ok_move [of c _ t])
next
  case (open_raised c t)
  note at = conc_inv_at [OF open_raised.prems open_raised.hyps]
  show ?case
    by (rule write_inv [OF open_raised.prems open_raised.hyps])
      (use at in \<open>auto simp: keeps_def globals_ok_def\<close>)
next
  case (unwound c t)
  then show ?case
    using conc_inv_at [OF unwound.prems unwound.hyps]
    by (intro conc_inv_step [OF unwound.prems, where t = t and p = Raised])
      (auto simp: keeps_def intro: globals_ok_move [of c _ t])
next
  case (release c t r)
  then show ?case
    using conc_inv_at [OF release.prems release.hyps]
    by (intro conc_inv_step [OF release.prems, where t = t and p = "Returned r"])
      (auto simp: keeps_def globals_ok_def elim!: answer_ok.elims)
qed ((rule move_inv, assumption, assumption, (auto dest!: conc_inv_at)[3]) |
  (rule write_inv, assumption, assumption, (auto simp: keeps_def globals_ok_def)[5]))+

lemma reachable_inv: "reachable c \<Longrightarrow> conc_inv c"
proof (induction rule: reachable.induct)
  case start
  show ?case by (simp add: conc_inv_def globals_ok_def idle_def)
next
  case (more c c')
  then show ?case using step_inv by blast
qed

text \<open>An answer is the session that the globals hold, now and at any later time.\<close>

lemma answer_is_session:
  assumes "conc_inv c" "sh_pc c t = Returned r"
  shows "r = sh_session c"
proof -
  have "answer_ok r c" "globals_ok c"
    using conc_inv_at [OF assms] by simp_all
  then show ?thesis
    by (cases r) (auto simp: globals_ok_def)
qed

section \<open>Progress\<close>

text \<open>A step that only thread \<open>t\<close> takes. The holder of the lock can always move, and without a
  holder every thread that has not finished can.\<close>

definition moves :: "shared \<Rightarrow> nat \<Rightarrow> bool" where
  "moves c t \<longleftrightarrow> (\<exists>c'. step c c' \<and> (\<forall>u. u \<noteq> t \<longrightarrow> sh_pc c' u = sh_pc c u))"

lemma movesI: "step c c' \<Longrightarrow> (\<And>u. u \<noteq> t \<Longrightarrow> sh_pc c' u = sh_pc c u) \<Longrightarrow> moves c t"
  unfolding moves_def by blast

lemmas holder_steps = step.locked_session step.locked_reread step.locked_ready_no step.locked_ready_open
  step.opened [where ok = True] step.unwound step.open_failed step.clear_session step.open_done step.set_ready
  step.release

lemma holder_moves: "holds_lock (sh_pc c t) \<Longrightarrow> moves c t"
  by (cases "sh_pc c t"; cases "sh_ready c = Some False")
    (auto dest: holder_steps intro: movesI)

lemma no_deadlock:
  assumes inv: "conc_inv c" and run: "\<not> finished (sh_pc c t)"
  obtains u where "moves c u" "u = t \<or> sh_lock c = Some u"
proof (cases "sh_lock c")
  case (Some u)
  then have "holds_lock (sh_pc c u)" using conc_invD(3) [OF inv, of u] by simp
  with Some that show ?thesis using holder_moves by blast
next
  case None
  have "moves c t"
  proof (cases "holds_lock (sh_pc c t)")
    case False
    with None run show ?thesis
      by (cases "sh_pc c t") (auto dest!: step.read_ready step.read_session step.reread_session step.acquire
          intro: movesI)
  qed (rule holder_moves)
  with that show ?thesis by blast
qed

section \<open>Termination\<close>

text \<open>A thread makes at most ten steps: each step lowers the rank of the thread that takes it.\<close>

fun rank :: "pc \<Rightarrow> nat" where
  "rank Read_ready = 10"
| "rank Read_session = 9"
| "rank Acquire = 8"
| "rank Locked_session = 7"
| "rank Locked_ready = 6"
| "rank Opening = 5"
| "rank Open_failed = 4"
| "rank Open_done = 4"
| "rank Clear_session = 3"
| "rank Set_ready = 3"
| "rank Locked_reread = 2"
| "rank (Release r) = 1"
| "rank Unwinding = 1"
| "rank Reread_session = 1"
| "rank (Returned r) = 0"
| "rank Raised = 0"

lemma step_rank:
  "step c c' \<Longrightarrow> \<exists>t p. sh_pc c' = (sh_pc c)(t := p) \<and> rank p < rank (sh_pc c t)"
  by (induction rule: step.induct) (force simp: fun_upd_def)+

definition ranks :: "nat \<Rightarrow> shared \<Rightarrow> nat" where
  "ranks n c = (\<Sum>t<n. rank (sh_pc c t))"

definition step_below :: "nat \<Rightarrow> shared \<Rightarrow> shared \<Rightarrow> bool" where
  "step_below n c c' \<longleftrightarrow> step c c' \<and> (\<forall>t\<ge>n. sh_pc c' t = sh_pc c t)"

lemma ranks_step:
  assumes "step_below n c c'"
  shows "ranks n c' < ranks n c"
proof -
  have "step c c'" using assms by (simp add: step_below_def)
  then obtain t p where t: "sh_pc c' = (sh_pc c)(t := p)" "rank p < rank (sh_pc c t)"
    using step_rank by blast
  have "t < n"
  proof (rule ccontr)
    assume "\<not> t < n"
    then have "sh_pc c' t = sh_pc c t" using assms by (simp add: step_below_def)
    with t show False by simp
  qed
  with t show ?thesis
    unfolding ranks_def by (intro sum_strict_mono_ex1) (auto intro!: bexI [of _ t])
qed

lemma ranks_steps: "(step_below n ^^ k) c c' \<Longrightarrow> k + ranks n c' \<le> ranks n c"
proof (induction k arbitrary: c')
  case (Suc k)
  then obtain d where d: "(step_below n ^^ k) c d" "step_below n d c'" by auto
  from Suc.IH [OF d(1)] ranks_step [OF d(2)] show ?case by simp
qed simp

lemma rank_le: "rank p \<le> 10"
  by (cases p) simp_all

lemma ranks_le: "ranks n c \<le> 10 * n"
  unfolding ranks_def using sum_bounded_above [of "{..<n}" "\<lambda>t. rank (sh_pc c t)" 10]
  by (simp add: rank_le mult.commute)

text \<open>The threads from \<open>n\<close> on have not started.\<close>

lemma steps_below:
  "(step_below n ^^ k) idle c \<Longrightarrow> reachable c \<and> (\<forall>t\<ge>n. sh_pc c t = Read_ready)"
proof (induction k arbitrary: c)
  case 0
  then show ?case by (auto simp: idle_def intro: reachable.start [unfolded idle_def])
next
  case (Suc k)
  then obtain d where d: "(step_below n ^^ k) idle d" "step_below n d c" by auto
  from Suc.IH [OF d(1)] d(2) show ?case
    by (auto simp: step_below_def intro: reachable.more)
qed

lemma stuck_finished:
  assumes run: "(step_below n ^^ k) idle c" and none: "\<And>c'. \<not> step_below n c c'" and "t < n"
  shows "finished (sh_pc c t)"
proof (rule ccontr)
  assume t: "\<not> finished (sh_pc c t)"
  from steps_below [OF run] have inv: "conc_inv c" and rest: "\<forall>t\<ge>n. sh_pc c t = Read_ready"
    using reachable_inv by blast+
  obtain u where u: "moves c u" "u = t \<or> sh_lock c = Some u"
    by (rule no_deadlock [OF inv t])
  have "u < n"
  proof (rule ccontr)
    assume "\<not> u < n"
    then have "sh_pc c u = Read_ready" using rest by simp
    then have "sh_lock c \<noteq> Some u" using conc_invD(3) [OF inv, of u] by auto
    with u(2) \<open>t < n\<close> \<open>\<not> u < n\<close> show False by simp
  qed
  then have "\<exists>c'. step_below n c c'"
    using u(1) by (auto simp: moves_def step_below_def)
  with none show False by blast
qed

text \<open>When no thread can move, the lock is free and every thread has returned the session of the
  globals, or raised because opening the engine did.\<close>

lemma maximal_run:
  assumes run: "(step_below n ^^ k) idle c" and none: "\<And>c'. \<not> step_below n c c'"
  shows "sh_lock c = None" "t < n \<Longrightarrow> sh_pc c t = Returned (sh_session c) \<or> (sh_pc c t = Raised \<and> 0 < sh_raises c)"
proof -
  from steps_below [OF run] have inv: "conc_inv c" and rest: "\<forall>t\<ge>n. sh_pc c t = Read_ready"
    using reachable_inv by blast+
  have fin: "finished (sh_pc c u) \<or> sh_pc c u = Read_ready" for u
    using stuck_finished [OF run none, of u] rest by (cases "u < n") auto
  then have "\<not> holds_lock (sh_pc c u)" for u
    using fin [of u] by (cases "sh_pc c u") auto
  then show "sh_lock c = None"
    using conc_invD(3) [OF inv] by (cases "sh_lock c") auto
  assume "t < n"
  then have "finished (sh_pc c t)" by (rule stuck_finished [OF run none])
  then show "sh_pc c t = Returned (sh_session c) \<or> (sh_pc c t = Raised \<and> 0 < sh_raises c)"
    using conc_inv_at [OF inv refl, of t] answer_is_session [OF inv, of t]
    by (cases "sh_pc c t") auto
qed

text \<open>A run of one thread, which opens the engine; after it the thread cannot move.\<close>

definition lone :: "nat option \<Rightarrow> bool option \<Rightarrow> nat option \<Rightarrow> nat \<Rightarrow> pc \<Rightarrow> shared" where
  "lone s r l n p = \<lparr>sh_session = s, sh_ready = r, sh_lock = l, sh_opens = n, sh_raises = 0,
     sh_pc = (\<lambda>_. Read_ready)(0 := p)\<rparr>"

definition lone_end :: shared where
  "lone_end = lone (Some 0) (Some True) None 1 (Returned (Some 0))"

lemma lone_simps [simp]:
  "sh_session (lone s r l n p) = s" "sh_ready (lone s r l n p) = r" "sh_lock (lone s r l n p) = l"
  "sh_opens (lone s r l n p) = n" "sh_pc (lone s r l n p) 0 = p" "goto (lone s r l n p) 0 q = lone s r l n q"
  "(lone s r l n p)\<lparr>sh_session := s'\<rparr> = lone s' r l n p" "(lone s r l n p)\<lparr>sh_ready := r'\<rparr> = lone s r' l n p"
  "(lone s r l n p)\<lparr>sh_lock := l'\<rparr> = lone s r l' n p" "(lone s r l n p)\<lparr>sh_opens := n'\<rparr> = lone s r l n' p"
  by (simp_all add: lone_def goto_def)

lemma lone_step:
  "step (lone s r l n p) (lone s' r' l' n' p') \<Longrightarrow> (step_below 1 ^^ k) (lone s' r' l' n' p') d \<Longrightarrow>
     (step_below 1 ^^ Suc k) (lone s r l n p) d"
  by (rule relpowp_Suc_I2) (simp_all add: step_below_def lone_def)

lemma lone_run: "(step_below 1 ^^ 9) idle lone_end"
proof -
  have steps: "step (lone None None None 0 Read_ready) (lone None None None 0 Read_session)"
    "step (lone None None None 0 Read_session) (lone None None None 0 Acquire)"
    "step (lone None None None 0 Acquire) (lone None None (Some 0) 0 Locked_session)"
    "step (lone None None (Some 0) 0 Locked_session) (lone None None (Some 0) 0 Locked_ready)"
    "step (lone None None (Some 0) 0 Locked_ready) (lone None None (Some 0) 1 Opening)"
    "step (lone None None (Some 0) 1 Opening) (lone None None (Some 0) 1 Open_done)"
    "step (lone None None (Some 0) 1 Open_done) (lone (Some 0) None (Some 0) 1 Set_ready)"
    "step (lone (Some 0) None (Some 0) 1 Set_ready) (lone (Some 0) (Some True) (Some 0) 1 (Release (Some 0)))"
    "step (lone (Some 0) (Some True) (Some 0) 1 (Release (Some 0))) lone_end"
    using step.read_ready [of "lone None None None 0 Read_ready" 0] step.read_session [of "lone None None None 0 Read_session" 0]
      step.acquire [of "lone None None None 0 Acquire" 0] step.locked_session [of "lone None None (Some 0) 0 Locked_session" 0]
      step.locked_ready_open [of "lone None None (Some 0) 0 Locked_ready" 0]
      step.opened [of "lone None None (Some 0) 1 Opening" 0 True] step.open_done [of "lone None None (Some 0) 1 Open_done" 0]
      step.set_ready [of "lone (Some 0) None (Some 0) 1 Set_ready" 0]
      step.release [of "lone (Some 0) (Some True) (Some 0) 1 (Release (Some 0))" 0 "Some 0"]
    by (simp_all add: lone_end_def)
  have "idle = lone None None None 0 Read_ready" by (simp add: idle_def lone_def fun_eq_iff)
  moreover have "(step_below 1 ^^ Suc (Suc (Suc (Suc (Suc (Suc (Suc (Suc (Suc 0)))))))))
      (lone None None None 0 Read_ready) lone_end"
    by (intro lone_step [OF steps(1)] lone_step [OF steps(2)] lone_step [OF steps(3)] lone_step [OF steps(4)]
        lone_step [OF steps(5)] lone_step [OF steps(6)] lone_step [OF steps(7)] lone_step [OF steps(8)]
        lone_step [OF steps(9) [unfolded lone_end_def]])
      (simp add: lone_end_def)
  ultimately show ?thesis by (simp add: eval_nat_numeral)
qed

lemma lone_stuck: "\<forall>c'. \<not> step_below 1 lone_end c'"
  using ranks_step [of 1 lone_end] by (auto simp: ranks_def lone_end_def)

end
