(* ===== verification/Embed_Stdin.thy ===== *)
theory Embed_Stdin
  imports Liorm_Embed
begin

text \<open>
  What the native engine reads of the values that \<open>liorm/embed_engine.py\<close> sends: \<open>read_params_json\<close>
  of \<open>engine/cli/embed_main.cpp\<close>, a scanner for quoted strings that takes the character after a
  backslash as it is. The text on standard input is ASCII, so a \<open>char\<close> of the engine is a character
  of it.
\<close>

section \<open>The reader\<close>

text \<open>The loop: what is left of \<open>raw\<close>, then \<open>in_str\<close>, \<open>cur\<close> and \<open>out\<close>.\<close>

fun read_params_loop :: "string \<Rightarrow> bool \<Rightarrow> string \<Rightarrow> string list \<Rightarrow> string list" where
  "read_params_loop [] inside cur out = out"
| "read_params_loop (c # raw) False cur out =
     (if c = CHR 0x22 then read_params_loop raw True [] out else read_params_loop raw False cur out)"
| "read_params_loop (c # raw) True cur out =
     (if c = CHR 0x5C \<and> raw \<noteq> []
      then (case raw of d # raw' \<Rightarrow> read_params_loop raw' True (cur @ [d]) out | [] \<Rightarrow> out)
      else if c = CHR 0x22 then read_params_loop raw False cur (out @ [cur])
      else read_params_loop raw True (cur @ [c]) out)"

definition read_params_json :: "string \<Rightarrow> string list" where
  "read_params_json raw = read_params_loop raw False [] []"

section \<open>What arrives\<close>

definition printable_char :: "char \<Rightarrow> bool" where
  "printable_char c \<longleftrightarrow> 32 \<le> ord c \<and> ord c \<le> 126"

text \<open>A character outside printable ASCII arrives as its JSON escape without the backslash.\<close>

definition received_char :: "char \<Rightarrow> string" where
  "received_char c = (if printable_char c then [c] else tl (esc_char c))"

definition received :: "string \<Rightarrow> string" where
  "received s = concat (map received_char s)"

lemma received_simps [simp]:
  "received [] = []" "received (c # s) = received_char c @ received s"
  by (simp_all add: received_def)

text \<open>What is left after reading one escape is read in the same string.\<close>

lemma read_plain:
  "list_all (\<lambda>c. c \<noteq> CHR 0x22 \<and> c \<noteq> CHR 0x5C) w \<Longrightarrow>
     read_params_loop (w @ s) True cur out = read_params_loop s True (cur @ w) out"
  by (induction w arbitrary: cur) auto

lemma hex_digit_plain: "d < 16 \<Longrightarrow> hex_digit d \<noteq> CHR 0x22 \<and> hex_digit d \<noteq> CHR 0x5C"
proof -
  have "list_all (\<lambda>d. hex_digit d \<noteq> CHR 0x22 \<and> hex_digit d \<noteq> CHR 0x5C) [0..<16]" by code_simp
  then show "d < 16 \<Longrightarrow> ?thesis" by (simp add: list_all_iff)
qed

lemma special_ords: "ord (CHR 0x22) = 34" "ord (CHR 0x5C) = 92"
  by code_simp+

lemma ord_char_eq: "ord c = ord d \<Longrightarrow> c = d"
  by simp

lemma read_escape:
  assumes "s \<noteq> []"
  shows "read_params_loop (esc_char c @ s) True cur out = read_params_loop s True (cur @ received_char c) out"
proof -
  have two: "received_char c = [d]"
    if "esc_char c = [CHR 0x5C, d]" "\<not> printable_char c \<or> c = d" for d
    using that by (auto simp: received_char_def)
  consider (quote) "c = CHR 0x22" | (slash) "c = CHR 0x5C"
    | (short) "ord c \<in> {10, 13, 9, 12, 8}" | (plain) "printable_char c" "c \<noteq> CHR 0x22" "c \<noteq> CHR 0x5C"
    | (hex) "\<not> printable_char c" "ord c \<notin> {10, 13, 9, 12, 8}"
    by blast
  then show ?thesis
  proof cases
    case quote
    then show ?thesis by (simp add: esc_char_def special_ords received_char_def printable_char_def)
  next
    case slash
    then show ?thesis by (simp add: esc_char_def special_ords received_char_def printable_char_def)
  next
    case short
    then show ?thesis by (auto simp: esc_char_def received_char_def printable_char_def)
  next
    case plain
    then have "ord c \<noteq> 34" "ord c \<noteq> 92" by (metis ord_char_eq special_ords)+
    with plain show ?thesis by (auto simp: esc_char_def received_char_def printable_char_def)
  next
    case hex
    have "ord c div 16 < 16" using ord_less [of c] by (simp add: less_mult_imp_div_less del: ord_less)
    from hex_digit_plain [OF this] hex_digit_plain [of "ord c mod 16"] hex show ?thesis
      using read_plain [of "[CHR ''0'', CHR ''0'', hex_digit (ord c div 16), hex_digit (ord c mod 16)]" s]
      by (auto simp: esc_char_def received_char_def printable_char_def)
  qed
qed

lemma read_string:
  "s \<noteq> [] \<Longrightarrow> read_params_loop (concat (map esc_char v) @ CHR 0x22 # s) True cur out =
     read_params_loop s False (cur @ received v) (out @ [cur @ received v])"
  by (induction v arbitrary: cur) (simp_all add: read_escape)

lemma read_dumps_str:
  "s \<noteq> [] \<Longrightarrow> \<exists>cur'. read_params_loop (dumps_str v @ s) False cur out =
     read_params_loop s False cur' (out @ [received v])"
  by (simp add: dumps_str_def read_string) blast

lemma read_list:
  "\<exists>cur'. read_params_loop (join '', '' (map dumps_str vs) @ '']'') False cur out = out @ map received vs"
proof (induction vs arbitrary: cur out)
  case (Cons v vs)
  show ?case
  proof (cases "vs = []")
    case True
    obtain cur' where "read_params_loop (dumps_str v @ '']'') False cur out =
        read_params_loop '']'' False cur' (out @ [received v])"
      using read_dumps_str [of "'']''" v cur out] by auto
    with True show ?thesis by simp
  next
    case False
    let ?rest = "join '', '' (map dumps_str vs) @ '']''"
    obtain cur' where "read_params_loop (dumps_str v @ '', '' @ ?rest) False cur out =
        read_params_loop ('', '' @ ?rest) False cur' (out @ [received v])"
      using read_dumps_str [of "'', '' @ ?rest" v cur out] by auto
    with False Cons.IH show ?thesis by (simp add: join_Cons)
  qed
qed simp

text \<open>The values arrive one by one, in their order.\<close>

lemma read_stdin: "read_params_json (stdin_of ps) = map (\<lambda>p. received (py_str p)) ps"
proof -
  have "map (dumps '', '' '': '') (map (\<lambda>p. JStr (py_str p)) ps) = map dumps_str (map py_str ps)"
    by simp
  then have "stdin_of ps = CHR ''['' # join '', '' (map dumps_str (map py_str ps)) @ '']''"
    by (simp only: stdin_of_def dumps.simps append_Cons append_Nil)
  then show ?thesis
    using read_list [of "map py_str ps" "[]" "[]"] by (simp add: read_params_json_def comp_def)
qed

text \<open>A value arrives as it was sent exactly when it is printable ASCII.\<close>

lemma length_received: "length s \<le> length (received s)"
proof (induction s)
  case (Cons c s)
  have "received_char c \<noteq> []" by (auto simp: received_char_def esc_char_def printable_char_def)
  then have "1 \<le> length (received_char c)" by (cases "received_char c") auto
  with Cons show ?case by simp
qed simp

lemma received_char_differs:
  assumes "\<not> printable_char c"
  shows "(\<exists>d. received_char c = [d] \<and> d \<noteq> c) \<or> length (received_char c) = 5"
proof -
  have "list_all printable_char ''nrtfb''" by code_simp
  then have "c \<notin> set ''nrtfb''" using assms by (auto simp: list_all_iff)
  moreover have esc: "received_char c = tl (esc_char c)" using assms by (simp add: received_char_def)
  moreover have "\<not> (32 \<le> ord c \<and> ord c \<le> 126)" "ord c \<noteq> 34" "ord c \<noteq> 92"
    using assms unfolding printable_char_def by linarith+
  ultimately show ?thesis
    unfolding esc by (auto simp: esc_char_def)
qed

lemma received_id: "received s = s \<longleftrightarrow> list_all printable_char s"
proof (induction s)
  case (Cons c s)
  show ?case
  proof (cases "printable_char c")
    case True
    with Cons show ?thesis by (simp add: received_char_def)
  next
    case False
    have "received_char c @ received s \<noteq> c # s"
    proof
      assume eq: "received_char c @ received s = c # s"
      then have "length (received_char c @ received s) = length (c # s)" by (rule arg_cong)
      then have "length (received_char c) + length (received s) = Suc (length s)" by simp
      then have "length (received_char c) \<noteq> 5" using length_received [of s] by linarith
      then obtain d where "received_char c = [d]" "d \<noteq> c" using received_char_differs [OF False] by blast
      with eq show False by simp
    qed
    with False show ?thesis by simp
  qed
qed simp

end
