(* ===== verification/Bench_Csv.thy ===== *)
theory Bench_Csv
  imports Liorm_Embed "HOL-Library.Multiset"
begin

text \<open>
  \<open>scripts/bench/emit_csv.py\<close>: the rows of the benchmark harness and the CSV files they are
  written to, one per result directory. A float is its \<open>repr\<close>; \<open>csv.DictWriter\<close> is modelled for
  the dialect the code uses (\<open>excel\<close>, fields outside \<open>FIELDNAMES\<close> ignored).
\<close>

section \<open>The host\<close>

text \<open>
  What the script asks the host: the output of \<open>git rev-parse\<close> (\<open>None\<close> where the call raises one
  of the two exceptions caught) and the names \<open>platform\<close> gives the system and the machine.
\<close>

record host =
  h_git :: "string option"
  h_system :: string
  h_machine :: string

text \<open>\<open>s or "unknown"\<close>\<close>

definition or_unknown :: "string \<Rightarrow> string" where
  "or_unknown s = (if s = [] then ''unknown'' else s)"

definition git_sha :: "host \<Rightarrow> string" where
  "git_sha h = (case h_git h of None \<Rightarrow> ''unknown'' | Some out \<Rightarrow> or_unknown (py_strip out))"

definition host_os :: "host \<Rightarrow> string" where
  "host_os h =
     (let sysname = lower (h_system h) in
      if sysname = ''darwin'' then ''darwin''
      else if sysname = ''linux'' then ''linux''
      else if sysname = ''windows'' then ''windows''
      else or_unknown sysname)"

definition cpu_model :: "host \<Rightarrow> string" where
  "cpu_model h =
     (let machine = lower (h_machine h) in
      if machine \<in> {''arm64'', ''aarch64''} then ''arm''
      else if machine \<in> {''x86_64'', ''amd64''} then ''x86_64''
      else or_unknown machine)"

section \<open>Rows\<close>

type_synonym bench_row = "(string, string) dict"

definition FIELDNAMES :: "string list" where
  "FIELDNAMES = [''benchmark'', ''lang'', ''variant'', ''threads'', ''metric'', ''value'', ''unit'',
     ''git_sha'', ''cpu_model'', ''flags'', ''passed'', ''os'']"

definition base_row ::
  "host \<Rightarrow> string \<Rightarrow> string \<Rightarrow> string \<Rightarrow> string option \<Rightarrow> string \<Rightarrow> string \<Rightarrow> bool option \<Rightarrow> string \<Rightarrow> bench_row" where
  "base_row h benchmark lang metric v unit variant passed flags =
     (let row = [
        (''benchmark'', benchmark),
        (''lang'', lang),
        (''variant'', variant),
        (''threads'', ''1''),
        (''metric'', metric),
        (''value'', case v of None \<Rightarrow> [] | Some x \<Rightarrow> x),
        (''unit'', unit),
        (''git_sha'', git_sha h),
        (''cpu_model'', cpu_model h),
        (''flags'', flags),
        (''passed'', []),
        (''os'', host_os h)] in
      (case passed of
         None \<Rightarrow> row
       | Some b \<Rightarrow> AList.update ''passed'' (if b then ''true'' else ''false'') row))"

definition blocked_row :: "host \<Rightarrow> string \<Rightarrow> string \<Rightarrow> string \<Rightarrow> string \<Rightarrow> string \<Rightarrow> bench_row" where
  "blocked_row h benchmark metric unit reason variant =
     base_row h benchmark ''lidb'' metric None unit variant (Some False) (''harness_blocked:'' @ reason)"

text \<open>\<open>round6\<close> is \<open>str(round(value, 6))\<close>.\<close>

definition measured_row ::
  "('f \<Rightarrow> string) \<Rightarrow> host \<Rightarrow> string \<Rightarrow> string \<Rightarrow> 'f \<Rightarrow> string \<Rightarrow> string \<Rightarrow> string \<Rightarrow> bench_row" where
  "measured_row round6 h benchmark metric v unit variant flags =
     base_row h benchmark ''lidb'' metric (Some (round6 v)) unit variant (Some True) flags"

section \<open>CSV\<close>

text \<open>A field is quoted when it has a comma, a quote or a line break; quotes are doubled.\<close>

definition csv_special :: "char \<Rightarrow> bool" where
  "csv_special c \<longleftrightarrow> c \<in> {CHR '','', dq, CHR 0x0D, CHR 0x0A}"

definition csv_field :: "string \<Rightarrow> string" where
  "csv_field w =
     (if list_ex csv_special w then dq # concat (map (\<lambda>c. if c = dq then [dq, dq] else [c]) w) @ [dq] else w)"

definition csv_line :: "string list \<Rightarrow> string" where
  "csv_line ws = join '','' (map csv_field ws) @ [CHR 0x0D, CHR 0x0A]"

definition row_fields :: "bench_row \<Rightarrow> string list" where
  "row_fields row = map (\<lambda>k. case map_of row k of None \<Rightarrow> [] | Some v \<Rightarrow> v) FIELDNAMES"

definition csv_text :: "bench_row list \<Rightarrow> string" where
  "csv_text rows = csv_line FIELDNAMES @ concat (map (\<lambda>row. csv_line (row_fields row)) rows)"

section \<open>Files\<close>

text \<open>The system with writing of text files; \<open>path.parent\<close> is what precedes the last slash.\<close>

record 'w bench_os = "'w os" +
  os_write :: "string \<Rightarrow> string \<Rightarrow> 'w \<Rightarrow> 'w"

definition parent_dir :: "string \<Rightarrow> string" where
  "parent_dir p = rev (tl (dropWhile (\<lambda>c. c \<noteq> CHR ''/'') (rev p)))"

definition write_csv :: "('w, 'z) bench_os_scheme \<Rightarrow> string \<Rightarrow> bench_row list \<Rightarrow> 'w \<Rightarrow> 'w" where
  "write_csv os path rows w = os_write os path (csv_text rows) (os_mkdir os (parent_dir path) w)"

definition benchmarks_tier_root :: "('w, 'z) bench_os_scheme \<Rightarrow> 'w \<Rightarrow> string" where
  "benchmarks_tier_root os w =
     (let env = py_strip (case os_getenv os ''BENCH_TIER_DB_ROOT'' w of None \<Rightarrow> [] | Some v \<Rightarrow> v) in
      if env \<noteq> [] then env @ ''/benchmarks'' else parent_dir (os_root os) @ ''/benchmarks/benchmarks'')"

definition TIER_DIRS :: "(string, string) dict" where
  "TIER_DIRS = [
     (''ann_qps_10k'', ''tier_db_vector_ann''),
     (''ann_recall_at_10_10k'', ''tier_db_vector_ann''),
     (''ann_recall_at_10_1m'', ''tier_db_vector_ann''),
     (''gpu_ann_speedup_10k'', ''tier_db_gpu_speedup''),
     (''gpu_ann_speedup_1m'', ''tier_db_gpu_speedup''),
     (''graph_cycle_detect'', ''tier_db_graph_registry''),
     (''graph_dep_closure'', ''tier_db_graph_registry''),
     (''registry_publish'', ''tier_db_registry''),
     (''registry_read_by_name'', ''tier_db_registry''),
     (''registry_read_latest'', ''tier_db_registry''),
     (''injection_blocked'', ''tier_db_security''),
     (''rls_bypass_blocked'', ''tier_db_security''),
     (''rss_idle'', ''tier_db_memory''),
     (''rss_peak_load'', ''tier_db_memory''),
     (''concurrent_readers'', ''tier_db_parallel''),
     (''concurrent_writers'', ''tier_db_parallel''),
     (''query_log_complete'', ''tier_db_audit''),
     (''tamper_evidence'', ''tier_db_audit''),
     (''ws_publish_latency'', ''tier_db_realtime'')]"

text \<open>The loop over the rows; a row without the key \<open>benchmark\<close> raises.\<close>

fun bucket_rows :: "bench_row list \<Rightarrow> (string, bench_row list) dict \<Rightarrow> (string, bench_row list) dict result" where
  "bucket_rows [] buckets = Inr buckets"
| "bucket_rows (row # rows) buckets =
     (case map_of row ''benchmark'' of
        None \<Rightarrow> Inl (KeyError ''benchmark'')
      | Some bench \<Rightarrow>
          (case map_of TIER_DIRS bench of
             None \<Rightarrow> bucket_rows rows buckets
           | Some tier \<Rightarrow>
               let old = (case map_of buckets tier of None \<Rightarrow> [] | Some rs \<Rightarrow> rs) in
               bucket_rows rows (AList.update tier (old @ [row]) buckets)))"

definition tier_path :: "string \<Rightarrow> string \<Rightarrow> string" where
  "tier_path bench_root tier = bench_root @ ''/'' @ tier @ ''/results/latest.csv''"

definition split_by_tier :: "bench_row list \<Rightarrow> string \<Rightarrow> (string, bench_row list) dict result" where
  "split_by_tier rows bench_root =
     ebind (bucket_rows rows []) (\<lambda>buckets.
     Inr (foldl (\<lambda>out (tier, tier_rows). AList.update (tier_path bench_root tier) tier_rows out) [] buckets))"

definition emit_all :: "('w, 'z) bench_os_scheme \<Rightarrow> bench_row list \<Rightarrow> string \<Rightarrow> ('w, string list) action" where
  "emit_all os rows bench_root w =
     (case split_by_tier rows bench_root of
        Inl e \<Rightarrow> (Inl e, w)
      | Inr files \<Rightarrow>
          (Inr (map fst files), foldl (\<lambda>w (path, tier_rows). write_csv os path tier_rows w) w files))"

section \<open>Every row has every field\<close>

lemma base_row_keys: "dict_keys (base_row h benchmark lang metric v unit variant passed flags) = FIELDNAMES"
  by (cases passed) (simp_all add: base_row_def FIELDNAMES_def)

lemma base_row_benchmark [simp]:
  "map_of (base_row h benchmark lang metric v unit variant passed flags) ''benchmark'' = Some benchmark"
  by (cases passed) (simp_all add: base_row_def)

lemma base_row_value [simp]:
  "map_of (base_row h benchmark lang metric v unit variant passed flags) ''value'' =
     Some (case v of None \<Rightarrow> [] | Some x \<Rightarrow> x)"
  by (cases passed) (simp_all add: base_row_def)

lemma base_row_passed [simp]:
  "map_of (base_row h benchmark lang metric v unit variant passed flags) ''passed'' =
     Some (case passed of None \<Rightarrow> [] | Some b \<Rightarrow> if b then ''true'' else ''false'')"
  by (cases passed) (simp_all add: base_row_def)

lemma base_row_flags [simp]:
  "map_of (base_row h benchmark lang metric v unit variant passed flags) ''flags'' = Some flags"
  by (cases passed) (simp_all add: base_row_def)

section \<open>The CSV text is unambiguous\<close>

definition csv_stop :: "string \<Rightarrow> bool" where
  "csv_stop s \<longleftrightarrow> s = [] \<or> hd s \<in> {CHR '','', CHR 0x0D}"

lemma csv_stop_not_dq: "csv_stop s \<Longrightarrow> \<exists>w. s = dq # w \<Longrightarrow> False"
  by (auto simp: csv_stop_def dq_def)

lemma quoted_body_decode:
  assumes "csv_stop s" "csv_stop t"
    and "concat (map (\<lambda>c. if c = dq then [dq, dq] else [c]) x) @ dq # s =
      concat (map (\<lambda>c. if c = dq then [dq, dq] else [c]) y) @ dq # t"
  shows "x = y \<and> s = t"
  using assms(3)
proof (induction x arbitrary: y)
  case Nil
  then show ?case
    using csv_stop_not_dq [OF assms(1)] by (cases y) (auto split: if_splits)
next
  case (Cons a x)
  then show ?case
    using csv_stop_not_dq [OF assms(2)] by (cases y) (auto split: if_splits)
qed

lemma plain_take:
  assumes "\<not> list_ex csv_special x" "csv_stop s"
  shows "takeWhile (\<lambda>c. \<not> csv_special c) (x @ s) = x"
proof -
  have "takeWhile (\<lambda>c. \<not> csv_special c) s = []"
    using assms(2) by (cases s) (auto simp: csv_stop_def csv_special_def)
  with assms(1) show ?thesis by (simp add: list_ex_iff takeWhile_append2)
qed

lemma plain_hd: "\<not> list_ex csv_special x \<Longrightarrow> csv_stop s \<Longrightarrow> x @ s \<noteq> dq # w"
  by (cases x) (auto simp: csv_special_def csv_stop_def dq_def)

interpretation csv_code: prefix_code csv_field "\<lambda>_. True" csv_stop
proof
  fix x y s t assume stops: "csv_stop s" "csv_stop t" and eq: "csv_field x @ s = csv_field y @ t"
  show "x = y \<and> s = t"
  proof (cases "list_ex csv_special x"; cases "list_ex csv_special y")
    assume "list_ex csv_special x" "list_ex csv_special y"
    then show ?thesis using eq quoted_body_decode [OF stops, of x y] by (simp add: csv_field_def)
  next
    assume q: "list_ex csv_special x" "\<not> list_ex csv_special y"
    with eq have "\<exists>w. y @ t = dq # w" by (simp add: csv_field_def) (metis append_Cons)
    with plain_hd [OF q(2) stops(2)] show ?thesis by blast
  next
    assume q: "\<not> list_ex csv_special x" "list_ex csv_special y"
    with eq have "\<exists>w. x @ s = dq # w" by (auto simp: csv_field_def)
    with plain_hd [OF q(1) stops(1)] show ?thesis by blast
  next
    assume pl: "\<not> list_ex csv_special x" "\<not> list_ex csv_special y"
    then have xy: "x @ s = y @ t" using eq by (simp add: csv_field_def)
    then have "x = y" using plain_take [OF pl(1) stops(1)] plain_take [OF pl(2) stops(2)] by simp
    with xy show ?thesis by simp
  qed
qed (simp add: csv_stop_def)

lemma csv_line_decode:
  assumes "length ws = length ws'" "csv_line ws @ s = csv_line ws' @ t"
  shows "ws = ws' \<and> s = t"
proof (cases "ws = []")
  case True
  with assms show ?thesis by (simp add: csv_line_def)
next
  case False
  with assms show ?thesis
    unfolding csv_line_def
  proof (induction ws ws' rule: list_induct2)
    case (Cons w ws w' ws')
    let ?rest = "\<lambda>ws s. (if ws = [] then [CHR 0x0D, CHR 0x0A] @ s
      else CHR '','' # join '','' (map csv_field ws) @ [CHR 0x0D, CHR 0x0A] @ s)"
    have same: "ws = [] \<longleftrightarrow> ws' = []" using Cons.hyps by auto
    have "csv_field w @ ?rest ws s = csv_field w' @ ?rest ws' t"
      using Cons.prems same by (auto simp: join_Cons)
    moreover have "csv_stop (?rest ws s)" "csv_stop (?rest ws' t)"
      by (simp_all add: csv_stop_def)
    ultimately have "w = w'" "?rest ws s = ?rest ws' t"
      using csv_code.decode by blast+
    with Cons.IH same show ?case by (auto split: if_splits)
  qed simp
qed

lemma row_fields_length [simp]: "length (row_fields row) = 12"
  by (simp add: row_fields_def FIELDNAMES_def)

lemma csv_line_not_Nil [simp]: "csv_line ws \<noteq> []"
  by (simp add: csv_line_def)

lemma csv_rows_decode:
  "concat (map (\<lambda>row. csv_line (row_fields row)) rows) = concat (map (\<lambda>row. csv_line (row_fields row)) rows') \<Longrightarrow>
     map row_fields rows = map row_fields rows'"
proof (induction rows arbitrary: rows')
  case Nil
  then show ?case by (cases rows') simp_all
next
  case (Cons r rows)
  then obtain r' rest where rows': "rows' = r' # rest" by (cases rows') auto
  have "row_fields r = row_fields r' \<and>
      concat (map (\<lambda>row. csv_line (row_fields row)) rows) = concat (map (\<lambda>row. csv_line (row_fields row)) rest)"
    using Cons.prems rows' by (intro csv_line_decode) simp_all
  with Cons.IH rows' show ?case by simp
qed

lemma csv_text_decode: "csv_text rows = csv_text rows' \<longleftrightarrow> map row_fields rows = map row_fields rows'"
proof
  assume "csv_text rows = csv_text rows'"
  then have "concat (map (\<lambda>row. csv_line (row_fields row)) rows) =
      concat (map (\<lambda>row. csv_line (row_fields row)) rows')" by (simp only: csv_text_def append_same_eq same_append_eq)
  then show "map row_fields rows = map row_fields rows'" by (rule csv_rows_decode)
next
  assume eq: "map row_fields rows = map row_fields rows'"
  have "map (\<lambda>row. csv_line (row_fields row)) rows = map csv_line (map row_fields rows)" for rows
    by simp
  with eq show "csv_text rows = csv_text rows'" by (simp only: csv_text_def)
qed

section \<open>Splitting by result directory\<close>

definition tier_of :: "bench_row \<Rightarrow> string option" where
  "tier_of row = (case map_of row ''benchmark'' of None \<Rightarrow> None | Some b \<Rightarrow> map_of TIER_DIRS b)"

definition bucket :: "(string, bench_row list) dict \<Rightarrow> string \<Rightarrow> bench_row list" where
  "bucket buckets tier = (case map_of buckets tier of None \<Rightarrow> [] | Some rs \<Rightarrow> rs)"

lemma bucket_update: "bucket (AList.update t rs buckets) u = (if u = t then rs else bucket buckets u)"
  by (simp add: bucket_def map_of_update_dict)

lemma update_values: "snd ` set (AList.update k v d) \<subseteq> insert v (snd ` set d)"
  by (induction d) auto

lemma bucket_rows_spec:
  assumes "bucket_rows rows buckets = Inr buckets'" "is_dict buckets" "[] \<notin> snd ` set buckets"
  shows "is_dict buckets' \<and> [] \<notin> snd ` set buckets' \<and>
    (\<forall>tier. bucket buckets' tier = bucket buckets tier @ filter (\<lambda>r. tier_of r = Some tier) rows)"
  using assms
proof (induction rows buckets rule: bucket_rows.induct)
  case (2 row rows buckets)
  obtain b where b: "map_of row ''benchmark'' = Some b"
    using 2 by (auto split: option.splits)
  show ?case
  proof (cases "map_of TIER_DIRS b")
    case None
    with 2 b show ?thesis by (simp add: tier_of_def)
  next
    case (Some tier)
    define next' where "next' = AList.update tier (bucket buckets tier @ [row]) buckets"
    have "[] \<notin> insert (bucket buckets tier @ [row]) (snd ` set buckets)"
      using 2(5) by simp
    then have "[] \<notin> snd ` set next'"
      unfolding next'_def by (rule contra_subsetD [OF update_values])
    moreover have "bucket_rows rows next' = Inr buckets'"
      using 2(3) b Some by (simp add: next'_def bucket_def Let_def)
    ultimately have "is_dict buckets' \<and> [] \<notin> snd ` set buckets' \<and>
        (\<forall>tier. bucket buckets' tier = bucket next' tier @ filter (\<lambda>r. tier_of r = Some tier) rows)"
      using 2(2) [OF b Some refl] 2(4) by (simp add: next'_def bucket_def)
    then show ?thesis using b Some by (auto simp: next'_def bucket_update tier_of_def)
  qed
qed simp

text \<open>Filling a dictionary from distinct keys through an injective renaming keeps the order.\<close>

lemma fold_update_map:
  assumes "inj f" "is_dict (acc @ d)"
  shows "foldl (\<lambda>out (k, v). AList.update (f k) v out) (map (\<lambda>(k, v). (f k, v)) acc) d =
    map (\<lambda>(k, v). (f k, v)) (acc @ d)"
  using assms(2)
proof (induction d arbitrary: acc)
  case (Cons kv d)
  obtain k v where kv: "kv = (k, v)" by (cases kv)
  have keys: "dict_keys (map (\<lambda>(k, v). (f k, v)) acc) = map f (dict_keys acc)"
    by (simp add: dict_keys_def split_beta)
  have "f k \<notin> set (dict_keys (map (\<lambda>(k, v). (f k, v)) acc))"
    unfolding keys using Cons.prems kv assms(1) by (auto simp: is_dict_def dest: injD)
  from update_fresh [OF this, of v] Cons.IH [of "acc @ [(k, v)]"] Cons.prems kv show ?case by simp
qed simp

lemma tier_path_inj: "inj (tier_path root)"
  by (rule injI) (simp add: tier_path_def)

lemma split_by_tier_eq:
  assumes "split_by_tier rows root = Inr files"
  shows "\<exists>buckets. bucket_rows rows [] = Inr buckets \<and> is_dict buckets \<and>
    files = map (\<lambda>(tier, rs). (tier_path root tier, rs)) buckets"
proof -
  obtain buckets where b: "bucket_rows rows [] = Inr buckets"
    "files = foldl (\<lambda>out (tier, tier_rows). AList.update (tier_path root tier) tier_rows out) [] buckets"
    using assms by (auto simp: split_by_tier_def ebind_eq_Inr)
  then have "is_dict buckets" using bucket_rows_spec [OF b(1)] by simp
  with fold_update_map [OF tier_path_inj, of "[]" buckets root] b show ?thesis by simp
qed

lemma map_of_inj_keys: "inj f \<Longrightarrow> map_of (map (\<lambda>(k, v). (f k, v)) d) (f k) = map_of d k"
  by (induction d) (auto dest: injD)

text \<open>Each file holds the rows of its tier, in their order, and there is no file without rows.\<close>

lemma split_by_tier_rows:
  assumes "split_by_tier rows root = Inr files"
  shows "map_of files (tier_path root tier) =
    (let rs = filter (\<lambda>r. tier_of r = Some tier) rows in if rs = [] then None else Some rs)"
proof -
  obtain buckets where b: "bucket_rows rows [] = Inr buckets" "is_dict buckets"
    "files = map (\<lambda>(tier, rs). (tier_path root tier, rs)) buckets"
    using split_by_tier_eq [OF assms] by blast
  have spec: "[] \<notin> snd ` set buckets" "bucket buckets tier = filter (\<lambda>r. tier_of r = Some tier) rows"
    using bucket_rows_spec [OF b(1)] by (simp_all add: bucket_def)
  have "map_of files (tier_path root tier) = map_of buckets tier"
    unfolding b(3) by (rule map_of_inj_keys [OF tier_path_inj])
  also have "\<dots> = (let rs = bucket buckets tier in if rs = [] then None else Some rs)"
  proof (cases "map_of buckets tier")
    case (Some rs)
    then have "rs \<noteq> []" using spec(1) map_of_SomeD [OF Some] by force
    with Some show ?thesis by (simp add: bucket_def)
  qed (simp add: bucket_def)
  finally show ?thesis by (simp add: spec(2))
qed

lemma split_by_tier_total:
  "\<forall>r\<in>set rows. map_of r ''benchmark'' \<noteq> None \<Longrightarrow> returns (split_by_tier rows root)"
proof -
  assume "\<forall>r\<in>set rows. map_of r ''benchmark'' \<noteq> None"
  then have "returns (bucket_rows rows buckets)" for buckets
    by (induction rows buckets rule: bucket_rows.induct) (auto simp: returns_def Let_def split: option.splits)
  then obtain b where "bucket_rows rows [] = Inr b" by (rule returnsE)
  then show ?thesis by (simp add: split_by_tier_def returns_def)
qed

text \<open>The files together hold every row of a known benchmark once, and no path is written twice.\<close>

lemma bucket_append:
  "is_dict d \<Longrightarrow> mset (concat (map snd (AList.update k (bucket d k @ [row]) d))) = add_mset row (mset (concat (map snd d)))"
  by (induction d) (auto simp: bucket_def is_dict_def)

lemma bucket_rows_mset:
  "bucket_rows rows buckets = Inr buckets' \<Longrightarrow> is_dict buckets \<Longrightarrow>
     mset (concat (map snd buckets')) = mset (concat (map snd buckets)) + mset (filter (\<lambda>r. tier_of r \<noteq> None) rows)"
proof (induction rows buckets rule: bucket_rows.induct)
  case (2 row rows buckets)
  obtain b where b: "map_of row ''benchmark'' = Some b"
    using 2(3) by (auto split: option.splits)
  show ?case
  proof (cases "map_of TIER_DIRS b")
    case None
    with 2 b show ?thesis by (simp add: tier_of_def)
  next
    case (Some tier)
    then have "bucket_rows rows (AList.update tier (bucket buckets tier @ [row]) buckets) = Inr buckets'"
      using 2(3) b by (simp add: bucket_def Let_def)
    then show ?thesis
      using 2(2) [OF b Some refl] 2(4) b Some by (simp add: bucket_def [symmetric] bucket_append tier_of_def)
  qed
qed simp

lemma split_by_tier_mset:
  assumes "split_by_tier rows root = Inr files"
  shows "mset (concat (map snd files)) = mset (filter (\<lambda>r. tier_of r \<noteq> None) rows) \<and> is_dict files"
proof -
  obtain buckets where b: "bucket_rows rows [] = Inr buckets" "is_dict buckets"
    "files = map (\<lambda>(tier, rs). (tier_path root tier, rs)) buckets"
    using split_by_tier_eq [OF assms] by blast
  have "map snd files = map snd buckets" "dict_keys files = map (tier_path root) (dict_keys buckets)"
    by (simp_all add: b(3) split_beta dict_keys_def)
  with bucket_rows_mset [OF b(1)] b(2) show ?thesis
    by (simp add: is_dict_def distinct_map inj_on_subset [OF tier_path_inj])
qed

end
