(* ===== verification/Bench_Stats.thy ===== *)
theory Bench_Stats
  imports Lidb_Prelude "HOL-Library.Multiset"
begin

text \<open>
  The 95th percentiles of \<open>scripts/bench/tier_db_csv_impl.py\<close> and
  \<open>scripts/bench/registry_oltp_compare.py\<close>, and the timing loop. A sample is a value of any
  linear order; the operations on floats that round are the record \<open>float_ops\<close>.
\<close>

record 'f float_ops =
  fl_elapsed :: "'f \<Rightarrow> 'f \<Rightarrow> 'f"
  fl_div :: "'f \<Rightarrow> 'f \<Rightarrow> 'f"
  fl_int :: "int \<Rightarrow> 'f"
  fl_mean :: "'f \<Rightarrow> 'f \<Rightarrow> 'f"
  fl_round :: "nat \<Rightarrow> 'f \<Rightarrow> 'f"
  fl_repr :: "'f \<Rightarrow> string"

section \<open>Percentiles\<close>

text \<open>\<open>int(len(ordered) * 0.95)\<close>: the product of a length and the float \<open>0.95\<close>, rounded to a
  float and then down, is the product with \<open>19/20\<close> rounded down.\<close>

definition p95_index :: "nat \<Rightarrow> nat" where
  "p95_index n = min (n - 1) (19 * n div 20)"

definition p95_ms :: "'f::{linorder,zero} list \<Rightarrow> 'f" where
  "p95_ms samples = (if samples = [] then 0 else sort samples ! p95_index (length samples))"

text \<open>\<open>round(a / b)\<close>: to the nearest integer, to the even one when two are equally near.\<close>

definition round_div :: "nat \<Rightarrow> nat \<Rightarrow> nat" where
  "round_div a b =
     (let q = a div b; r = a mod b in if b < 2 * r \<or> (2 * r = b \<and> odd q) then q + 1 else q)"

definition compare_p95_index :: "nat \<Rightarrow> nat" where
  "compare_p95_index n = round_div (19 * (n - 1)) 20"

definition compare_p95_ms :: "'f::{linorder,zero} list \<Rightarrow> 'f" where
  "compare_p95_ms samples = (if samples = [] then 0 else sort samples ! compare_p95_index (length samples))"

section \<open>Timing\<close>

fun repeat_act :: "nat \<Rightarrow> ('w, unit) action \<Rightarrow> ('w, unit) action" where
  "repeat_act 0 fn = act_ret ()"
| "repeat_act (Suc n) fn = act_seq fn (\<lambda>_. repeat_act n fn)"

text \<open>The measured calls: the clock is read before and after each.\<close>

fun timed_samples ::
  "'f float_ops \<Rightarrow> ('w \<Rightarrow> 'f \<times> 'w) \<Rightarrow> nat \<Rightarrow> ('w, unit) action \<Rightarrow> 'f list \<Rightarrow> ('w, 'f list) action" where
  "timed_samples fo clock 0 fn samples = act_ret samples"
| "timed_samples fo clock (Suc n) fn samples = (\<lambda>w.
     let (t0, w1) = clock w in
     act_seq fn (\<lambda>_ w2.
       let (t1, w3) = clock w2 in
       timed_samples fo clock n fn (samples @ [fl_elapsed fo t0 t1]) w3) w1)"

text \<open>\<open>statistics.median\<close>\<close>

definition median :: "'f::linorder float_ops \<Rightarrow> 'f list \<Rightarrow> 'f result" where
  "median fo samples =
     (let data = sort samples; n = length data in
      if n = 0 then Inl ValueError
      else if odd n then Inr (data ! (n div 2))
      else Inr (fl_mean fo (data ! (n div 2 - 1)) (data ! (n div 2))))"

definition time_fn ::
  "'f::{linorder,zero} float_ops \<Rightarrow> ('w \<Rightarrow> 'f \<times> 'w) \<Rightarrow> ('w, unit) action \<Rightarrow> nat \<Rightarrow> nat \<Rightarrow> ('w, 'f \<times> 'f) action" where
  "time_fn fo clock fn warmup measured =
     act_seq (repeat_act warmup fn) (\<lambda>_.
     act_seq (timed_samples fo clock measured fn []) (\<lambda>samples.
     act_seq (lift_result (median fo samples)) (\<lambda>p50.
     act_ret (p50, compare_p95_ms samples))))"

section \<open>What the percentiles are\<close>

lemma sorted_count_le:
  assumes "sorted xs" "i < length xs"
  shows "i + 1 \<le> length (filter (\<lambda>x. x \<le> xs ! i) xs)"
proof -
  have "\<forall>x\<in>set (take (i + 1) xs). x \<le> xs ! i"
    using assms by (auto simp: in_set_conv_nth intro!: sorted_nth_mono)
  then have "filter (\<lambda>x. x \<le> xs ! i) (take (i + 1) xs) = take (i + 1) xs"
    by (simp add: filter_id_conv)
  moreover have "length (filter (\<lambda>x. x \<le> xs ! i) xs) =
      length (filter (\<lambda>x. x \<le> xs ! i) (take (i + 1) xs)) + length (filter (\<lambda>x. x \<le> xs ! i) (drop (i + 1) xs))"
    by (metis append_take_drop_id filter_append length_append)
  ultimately show ?thesis using assms(2) by simp
qed

lemma sorted_count_less:
  assumes "sorted xs" "i < length xs"
  shows "length (filter (\<lambda>x. x < xs ! i) xs) \<le> i"
proof -
  have "\<forall>x\<in>set (drop i xs). \<not> x < xs ! i"
    using assms by (auto simp: in_set_conv_nth not_less intro!: sorted_nth_mono)
  then have "filter (\<lambda>x. x < xs ! i) (drop i xs) = []"
    by (simp add: filter_empty_conv)
  then have "length (filter (\<lambda>x. x < xs ! i) xs) = length (filter (\<lambda>x. x < xs ! i) (take i xs))"
    by (metis append_Nil2 append_take_drop_id filter_append)
  also have "\<dots> \<le> i" using length_filter_le [of _ "take i xs"] by (simp add: le_trans)
  finally show ?thesis .
qed

lemma filter_sort_length: "length (filter P (sort xs)) = length (filter P xs)"
  by (metis mset_filter mset_sort size_mset)

lemma p95_index_less: "0 < n \<Longrightarrow> p95_index n < n"
  by (simp add: p95_index_def)

lemma compare_p95_index_le: "compare_p95_index n \<le> p95_index n \<and> p95_index n \<le> compare_p95_index n + 1"
proof (cases n)
  case (Suc m)
  define q r where "q = 19 * m div 20" and "r = 19 * m mod 20"
  have eq: "19 * m = 20 * q + r" and r: "r < 20" by (simp_all add: q_def r_def)
  have "19 * n div 20 = (r + 19 + q * 20) div 20" using eq Suc by (simp add: algebra_simps)
  also have "\<dots> = q + (r + 19) div 20" by (subst div_mult_self1) simp_all
  also have "(r + 19) div 20 = (if r = 0 then 0 else 1)" using r by (cases "r = 0") (auto intro: div_nat_eqI)
  finally have d: "19 * n div 20 = q + (if r = 0 then 0 else 1)" .
  have "q + (if r = 0 then 0 else 1) \<le> m" using eq by (cases "r = 0") auto
  then have "p95_index n = q + (if r = 0 then 0 else 1)"
    unfolding p95_index_def d using Suc by simp
  moreover have "compare_p95_index n = (if 20 < 2 * r \<or> (2 * r = 20 \<and> odd q) then q + 1 else q)"
    using Suc by (simp add: compare_p95_index_def round_div_def q_def r_def Let_def)
  ultimately show ?thesis by auto
qed (simp add: compare_p95_index_def p95_index_def round_div_def)

lemma p95_percentile:
  assumes "samples \<noteq> []"
  shows "p95_ms samples \<in> set samples"
    "19 * length samples \<le> 20 * length (filter (\<lambda>x. x \<le> p95_ms samples) samples)"
    "20 * length (filter (\<lambda>x. x < p95_ms samples) samples) \<le> 19 * length samples"
proof -
  let ?xs = "sort samples" and ?i = "p95_index (length samples)"
  have i: "?i < length ?xs" using assms by (simp add: p95_index_less)
  have p: "p95_ms samples = ?xs ! ?i" using assms by (simp add: p95_ms_def)
  show "p95_ms samples \<in> set samples"
    using nth_mem [OF i] by (simp add: p)
  have "?i + 1 \<le> length (filter (\<lambda>x. x \<le> p95_ms samples) samples)"
    using sorted_count_le [OF sorted_sort i] by (simp add: p filter_sort_length)
  then have "20 * (?i + 1) \<le> 20 * length (filter (\<lambda>x. x \<le> p95_ms samples) samples)"
    by (rule mult_le_mono2)
  moreover have "19 * length samples \<le> 20 * (?i + 1)"
    unfolding p95_index_def min_def using dividend_less_div_times [of 20 "19 * length samples"] by simp linarith
  ultimately show "19 * length samples \<le> 20 * length (filter (\<lambda>x. x \<le> p95_ms samples) samples)"
    by (rule order.trans [rotated])
  have "length (filter (\<lambda>x. x < p95_ms samples) samples) \<le> ?i"
    using sorted_count_less [OF sorted_sort i] by (simp add: p filter_sort_length)
  then have "20 * length (filter (\<lambda>x. x < p95_ms samples) samples) \<le> 20 * ?i"
    by (rule mult_le_mono2)
  moreover have "20 * ?i \<le> 19 * length samples"
  proof -
    have "?i \<le> 19 * length samples div 20" by (simp add: p95_index_def)
    then show ?thesis using div_times_less_eq_dividend [of "19 * length samples" 20] by linarith
  qed
  ultimately show "20 * length (filter (\<lambda>x. x < p95_ms samples) samples) \<le> 19 * length samples"
    by (rule order.trans)
qed

lemma p95_few_is_Max:
  assumes "samples \<noteq> []" "length samples \<le> 20"
  shows "p95_ms samples = Max (set samples)"
proof -
  have "p95_index (length samples) = length samples - 1"
    using assms by (cases "length samples = 20") (auto simp: p95_index_def)
  then have p: "p95_ms samples = sort samples ! (length samples - 1)"
    using assms by (simp add: p95_ms_def)
  show ?thesis
  proof (rule Max_eqI [symmetric])
    show "p95_ms samples \<in> set samples" by (rule p95_percentile(1) [OF assms(1)])
    fix y assume "y \<in> set samples"
    then obtain j where "j < length samples" "y = sort samples ! j"
      by (metis in_set_conv_nth length_sort set_sort)
    then show "y \<le> p95_ms samples"
      unfolding p by (auto intro!: sorted_nth_mono)
  qed simp
qed

lemma compare_p95_le: "compare_p95_ms samples \<le> p95_ms samples"
  using compare_p95_index_le [of "length samples"] p95_index_less [of "length samples"]
  by (auto simp: compare_p95_ms_def p95_ms_def intro!: sorted_nth_mono)

lemma timed_samples_length:
  "timed_samples fo clock n fn samples w = (Inr xs, w') \<Longrightarrow> length xs = length samples + n"
proof (induction n arbitrary: samples w)
  case (Suc n)
  obtain t0 w1 where c: "clock w = (t0, w1)" by (cases "clock w")
  obtain u w2 where f: "fn w1 = (Inr u, w2)"
    using Suc.prems c by (cases "fn w1") (auto simp: act_seq_def split: sum.splits)
  obtain t1 w3 where c1: "clock w2 = (t1, w3)" by (cases "clock w2")
  from Suc.prems c f c1 have "timed_samples fo clock n fn (samples @ [fl_elapsed fo t0 t1]) w3 = (Inr xs, w')"
    by simp
  from Suc.IH [OF this] show ?case by simp
qed simp

end
