(* ===== verification/Bench_Tier.thy ===== *)
theory Bench_Tier
  imports Bench_Csv Bench_Stats "HOL-Library.Char_ord" "HOL-Library.List_Lexorder"
begin

text \<open>
  \<open>scripts/bench/tier_db_csv_impl.py\<close>: the measurements of the harness and the rows they become.
  The settings read from the environment when the module is loaded are the record \<open>config\<close>. The
  load of the thread pools is an interleaving, given as the list of the clients whose call is
  next; it is a parameter, the scheduler and the clock decide it.
\<close>

section \<open>The system and the settings\<close>

text \<open>\<open>os_run\<close> of the harness also stands for runs with a changed environment or directory.\<close>

record ('w, 'f) tier_os = "'w bench_os" +
  os_executable :: "string \<Rightarrow> 'w \<Rightarrow> bool"
  os_uuid4 :: "'w \<Rightarrow> string \<times> 'w"
  os_clock :: "'w \<Rightarrow> 'f \<times> 'w"
  os_glob_rls :: "'w \<Rightarrow> string list"
  os_load :: "int \<Rightarrow> int \<Rightarrow> 'w \<Rightarrow> nat list"

record config =
  cfg_build_dir :: string
  cfg_embed :: string
  cfg_variant :: string
  cfg_read_iters :: int

definition env_default :: "('w, 'f, 'z) tier_os_scheme \<Rightarrow> string \<Rightarrow> string \<Rightarrow> 'w \<Rightarrow> string" where
  "env_default os name d w = (case os_getenv os name w of None \<Rightarrow> d | Some v \<Rightarrow> v)"

definition tier_config :: "('w, 'f, 'z) tier_os_scheme \<Rightarrow> (string \<Rightarrow> int result) \<Rightarrow> 'w \<Rightarrow> config result" where
  "tier_config os to_int w =
     (let build_dir = env_default os ''LIDB_BUILD_DIR'' (os_root os @ ''/build/bench'') w in
      ebind (to_int (env_default os ''BENCH_REGISTRY_READ_ITERS'' ''40'' w)) (\<lambda>iters.
      Inr \<lparr>cfg_build_dir = build_dir,
           cfg_embed = env_default os ''LIDB_EMBED'' (build_dir @ ''/lidb_embed'') w,
           cfg_variant = env_default os ''BENCH_PROFILE'' ''ci'' w,
           cfg_read_iters = iters\<rparr>))"

section \<open>Running commands\<close>

text \<open>\<open>subprocess.run(cmd, check=True)\<close>\<close>

definition check_run :: "('w, 'f, 'z) tier_os_scheme \<Rightarrow> string list \<Rightarrow> ('w, unit) action" where
  "check_run os cmd w =
     (let (p, w1) = os_run os cmd None w in
      if returncode p \<noteq> 0 then (Inl CalledProcessError, w1) else (Inr (), w1))"

definition ensure_embed :: "('w, 'f, 'z) tier_os_scheme \<Rightarrow> config \<Rightarrow> ('w, string) action" where
  "ensure_embed os cfg w =
     (if os_is_file os (cfg_embed cfg) w \<and> os_executable os (cfg_embed cfg) w then (Inr (cfg_embed cfg), w)
      else
        act_seq (check_run os [''cmake'', ''-S'', os_root os, ''-B'', cfg_build_dir cfg, ''-DCMAKE_BUILD_TYPE=Release'']) (\<lambda>_.
        act_seq (check_run os [''cmake'', ''--build'', cfg_build_dir cfg, ''--target'', ''lidb_embed'', ''-j'']) (\<lambda>_ w1.
        if \<not> os_is_file os (cfg_embed cfg) w1 then (Inl RuntimeError, w1) else (Inr (cfg_embed cfg), w1)))
        (os_mkdir os (cfg_build_dir cfg) w))"

definition exec_sql :: "('w, 'f, 'z) tier_os_scheme \<Rightarrow> string \<Rightarrow> string \<Rightarrow> string \<Rightarrow> ('w, unit) action" where
  "exec_sql os exe data_dir sql = check_run os [exe, ''exec'', data_dir, sql]"

definition uuid_act :: "('w, 'f, 'z) tier_os_scheme \<Rightarrow> ('w, string) action" where
  "uuid_act os w = (let (u, w1) = os_uuid4 os w in (Inr u, w1))"

definition sq :: "string \<Rightarrow> string" where
  "sq s = CHR 0x27 # s @ [CHR 0x27]"

definition seed_registry :: "('w, 'f, 'z) tier_os_scheme \<Rightarrow> string \<Rightarrow> string \<Rightarrow> ('w, string \<times> string) action" where
  "seed_registry os exe data_dir =
     act_seq (uuid_act os) (\<lambda>pub.
     act_seq (uuid_act os) (\<lambda>pkg.
     act_seq (uuid_act os) (\<lambda>ver.
     act_seq (exec_sql os exe data_dir
       (''INSERT INTO publishers (id, name, public_key) VALUES ('' @ sq pub @ '', '' @ sq ''bench-publisher'' @
        '', '' @ sq ''00'' @ '');'')) (\<lambda>_.
     act_seq (exec_sql os exe data_dir
       (''INSERT INTO packages (id, name, description) VALUES ('' @ sq pkg @ '', '' @ sq ''li-bench'' @
        '', '' @ sq ''harness seed'' @ '');'')) (\<lambda>_.
     act_seq (exec_sql os exe data_dir
       (''INSERT INTO package_versions (id, package_id, version, tree_digest, coverage_pct, publisher_id) '' @
        ''VALUES ('' @ sq ver @ '', '' @ sq pkg @ '', '' @ sq ''0.0.1-bench'' @ '', '' @ sq ''sha256:bench'' @
        '', 100.0, '' @ sq pub @ '');'')) (\<lambda>_.
     act_ret (pkg, pub)))))))"

definition time_query ::
  "'f::{linorder,zero} float_ops \<Rightarrow> ('w, 'f, 'z) tier_os_scheme \<Rightarrow> string \<Rightarrow> string \<Rightarrow> string \<Rightarrow> int \<Rightarrow> ('w, 'f) action" where
  "time_query fo os exe data_dir sql iters =
     act_seq (timed_samples fo (os_clock os) (nat iters) (exec_sql os exe data_dir sql) [])
       (\<lambda>samples. act_ret (p95_ms samples))"

section \<open>Memory\<close>

definition line_break :: "char \<Rightarrow> bool" where
  "line_break c \<longleftrightarrow> ord c \<in> {10, 11, 12, 13, 28, 29, 30, 133}"

function split_lines :: "string \<Rightarrow> string list" where
  "split_lines s =
     (if s = [] then []
      else takeWhile (\<lambda>c. \<not> line_break c) s #
        (case dropWhile (\<lambda>c. \<not> line_break c) s of
           [] \<Rightarrow> []
         | c # t \<Rightarrow> (case t of
             d # u \<Rightarrow> if ord c = 13 \<and> ord d = 10 then split_lines u else split_lines t
           | [] \<Rightarrow> [])))"
  by pat_completeness auto

termination
  by (relation "measure length") (auto dest: dropWhile_Cons_length)

text \<open>The first report whose last word is a number: \<open>to_kib w\<close> is \<open>int(float(w) / 1024)\<close>, \<open>None\<close>
  where it raises \<open>ValueError\<close>.\<close>

fun rss_of_lines :: "(string \<Rightarrow> int option) \<Rightarrow> string list \<Rightarrow> int" where
  "rss_of_lines to_kib [] = 0"
| "rss_of_lines to_kib (line # lines) =
     (if in_str ''maximum resident set size'' line then
        (let parts = split_ws line in
         case (if parts = [] then None else to_kib (last parts)) of
           Some kib \<Rightarrow> kib
         | None \<Rightarrow> rss_of_lines to_kib lines)
      else rss_of_lines to_kib lines)"

definition peak_rss_kib_darwin ::
  "('w, 'f, 'z) tier_os_scheme \<Rightarrow> (string \<Rightarrow> int option) \<Rightarrow> string list \<Rightarrow> 'w \<Rightarrow> int \<times> 'w" where
  "peak_rss_kib_darwin os to_kib cmd w =
     (let (p, w1) = os_run os ([''/usr/bin/time'', ''-l''] @ cmd) None w in
      (rss_of_lines to_kib (split_lines (stderr p)), w1))"

text \<open>A pool: each entry of the schedule is a call of that client, unless its earlier call raised.
  The result is the number of calls that returned and whether one raised.\<close>

fun run_pool :: "('w, unit) action \<Rightarrow> nat list \<Rightarrow> nat list \<Rightarrow> nat \<Rightarrow> 'w \<Rightarrow> (nat \<times> bool) \<times> 'w" where
  "run_pool fn [] stopped n w = ((n, stopped \<noteq> []), w)"
| "run_pool fn (c # cs) stopped n w =
     (if c \<in> set stopped then run_pool fn cs stopped n w
      else case fn w of
        (Inr _, w1) \<Rightarrow> run_pool fn cs stopped (n + 1) w1
      | (Inl _, w1) \<Rightarrow> run_pool fn cs (c # stopped) n w1)"

definition LOAD_SQL :: string where
  "LOAD_SQL = ''SELECT COUNT(*) FROM package_versions''"

text \<open>The futures are only waited for: an exception of a client is lost.\<close>

definition measure_memory ::
  "'f::{linorder,zero} float_ops \<Rightarrow> ('w, 'f, 'z) tier_os_scheme \<Rightarrow> (string \<Rightarrow> int result) \<Rightarrow> (string \<Rightarrow> int option) \<Rightarrow>
     string \<Rightarrow> string \<Rightarrow> ('w, 'f \<times> 'f) action" where
  "measure_memory fo os to_int to_kib exe data_dir w =
     act_seq (lift_result (to_int (env_default os ''BENCH_MEMORY_CLIENTS'' ''4'' w))) (\<lambda>clients.
     act_seq (lift_result (to_int (env_default os ''BENCH_MEMORY_LOAD_SEC'' ''1'' w))) (\<lambda>duration w0.
       let (idle_kib, w1) = peak_rss_kib_darwin os to_kib [exe, ''exec'', data_dir, LOAD_SQL] w0 in
       if clients \<le> 0 then (Inl ValueError, w1)
       else
       let (_, w2) = run_pool (exec_sql os exe data_dir LOAD_SQL) (os_load os clients duration w1) [] 0 w1;
           (exec_kib, w3) = peak_rss_kib_darwin os to_kib [exe, ''exec'', data_dir, LOAD_SQL] w2;
           peak_kib = max idle_kib exec_kib in
       (Inr (fl_div fo (fl_int fo idle_kib) (fl_int fo 1024), fl_div fo (fl_int fo peak_kib) (fl_int fo 1024)), w3))) w"

definition measure_parallel_readers ::
  "'f::{linorder,zero} float_ops \<Rightarrow> ('w, 'f, 'z) tier_os_scheme \<Rightarrow> (string \<Rightarrow> int result) \<Rightarrow> string \<Rightarrow> string \<Rightarrow>
     ('w, 'f) action" where
  "measure_parallel_readers fo os to_int exe data_dir w =
     act_seq (lift_result (to_int (env_default os ''BENCH_PARALLEL_CLIENTS'' ''4'' w))) (\<lambda>clients.
     act_seq (lift_result (to_int (env_default os ''BENCH_PARALLEL_DURATION_SEC'' ''1'' w))) (\<lambda>duration w0.
       if clients \<le> 0 then (Inl ValueError, w0)
       else
       let ((total_ops, raised), w1) =
             run_pool (exec_sql os exe data_dir LOAD_SQL) (os_load os clients duration w0) [] 0 w0 in
       if raised then (Inl CalledProcessError, w1)
       else (Inr (fl_round fo 2 (fl_div fo (fl_int fo (int total_ops)) (fl_int fo (max duration 1)))), w1))) w"

section \<open>Security\<close>

record 'f security_result =
  m_value :: "'f option"
  m_passed :: bool
  m_flags :: string

definition security_probe_ids :: "string list" where
  "security_probe_ids = [
     ''cve-cwe-89-sql-injection-via-param-concat'',
     ''cve-cwe-89-second-order-sql-injection-stored-value'',
     ''cve-cwe-89-identifier-injection-dynamic-table'',
     ''cve-raw-sql-capability-audit-escalation'']"

fun run_probes :: "('w, 'f, 'z) tier_os_scheme \<Rightarrow> string list \<Rightarrow> nat \<Rightarrow> nat \<Rightarrow> 'w \<Rightarrow> (nat \<times> nat) \<times> 'w" where
  "run_probes os [] passed failed w = ((passed, failed), w)"
| "run_probes os (probe # probes) passed failed w =
     (let (p, w1) = os_run os [''python3'', os_root os @ ''/scripts/security_probe.py'', probe] None w in
      if returncode p = 0 then run_probes os probes (passed + 1) failed w1
      else run_probes os probes passed (failed + 1) w1)"

definition injection_result :: "'f float_ops \<Rightarrow> nat \<Rightarrow> nat \<Rightarrow> 'f security_result" where
  "injection_result fo passed failed =
     (let n = passed + failed; ratio = fl_div fo (fl_int fo (int passed)) (fl_int fo (int n)) in
      if n = 0 then \<lparr>m_value = None, m_passed = False, m_flags = ''harness_blocked:no_probes''\<rparr>
      else if failed = 0 then \<lparr>m_value = Some ratio, m_passed = True, m_flags = ''probes_pass='' @ show_nat passed\<rparr>
      else \<lparr>m_value = Some ratio, m_passed = False, m_flags = ''probes_fail='' @ show_nat failed\<rparr>)"

text \<open>The row-level-security scripts: passed, failed, skipped.\<close>

fun run_rls :: "('w, 'f, 'z) tier_os_scheme \<Rightarrow> string list \<Rightarrow> nat \<times> nat \<times> nat \<Rightarrow> 'w \<Rightarrow> (nat \<times> nat \<times> nat) \<times> 'w" where
  "run_rls os [] counts w = (counts, w)"
| "run_rls os (script # scripts) (ok, bad, skipped) w =
     (let (p, w1) = os_run os [''bash'', script] None w in
      if returncode p = 0 \<and> in_str ''SKIP '' (stdout p) then run_rls os scripts (ok, bad, skipped + 1) w1
      else if returncode p = 0 then run_rls os scripts (ok + 1, bad, skipped) w1
      else run_rls os scripts (ok, bad + 1, skipped) w1)"

definition rls_result :: "'f float_ops \<Rightarrow> nat \<times> nat \<times> nat \<Rightarrow> 'f security_result" where
  "rls_result fo counts =
     (let (rls_pass, rls_fail, rls_skip) = counts; n = rls_pass + rls_fail;
          ratio = fl_div fo (fl_int fo (int rls_pass)) (fl_int fo (int n)) in
      if n = 0 then \<lparr>m_value = None, m_passed = False, m_flags = ''harness_blocked:rls_skipped='' @ show_nat rls_skip\<rparr>
      else if rls_fail = 0 then \<lparr>m_value = Some ratio, m_passed = True, m_flags = ''rls_pass='' @ show_nat rls_pass\<rparr>
      else \<lparr>m_value = Some ratio, m_passed = False, m_flags = ''rls_fail='' @ show_nat rls_fail\<rparr>)"

definition measure_security ::
  "'f float_ops \<Rightarrow> ('w, 'f, 'z) tier_os_scheme \<Rightarrow> 'w \<Rightarrow> ('f security_result \<times> 'f security_result) \<times> 'w" where
  "measure_security fo os w =
     (let ((passed, failed), w1) = run_probes os security_probe_ids 0 0 w;
          (counts, w2) =
            (if os_getenv os ''LIDB_RLS_HARNESS'' w1 = Some ''1''
             then run_rls os (sort (os_glob_rls os w1)) (0, 0, 0) w1
             else ((0, 0, length (os_glob_rls os w1)), w1)) in
      ((injection_result fo passed failed, rls_result fo counts), w2))"

section \<open>The rows\<close>

definition BLOCKED_SPECS :: "(string \<times> string \<times> string \<times> string) list" where
  "BLOCKED_SPECS = [
     (''ann_qps_10k'', ''queries_per_sec'', ''qps'', ''vector_ann_harness_pending''),
     (''ann_recall_at_10_10k'', ''recall_at_10'', ''ratio'', ''vector_ann_harness_pending''),
     (''ann_recall_at_10_1m'', ''recall_at_10'', ''ratio'', ''vector_ann_nightly_pending''),
     (''gpu_ann_speedup_10k'', ''speedup_ratio'', ''ratio'', ''gpu_harness_pending''),
     (''gpu_ann_speedup_1m'', ''speedup_ratio'', ''ratio'', ''gpu_harness_nightly_pending''),
     (''graph_cycle_detect'', ''latency_p95'', ''ms'', ''graph_registry_harness_pending''),
     (''graph_dep_closure'', ''latency_p95'', ''ms'', ''graph_registry_harness_pending''),
     (''query_log_complete'', ''completeness_ratio'', ''ratio'', ''audit_harness_pending''),
     (''tamper_evidence'', ''pass_rate'', ''ratio'', ''audit_harness_pending''),
     (''ws_publish_latency'', ''latency_p95'', ''ms'', ''realtime_harness_pending'')]"

definition blocked_rows :: "host \<Rightarrow> string \<Rightarrow> bench_row list" where
  "blocked_rows h variant =
     map (\<lambda>(bench, metric, unit, reason). blocked_row h bench metric unit reason variant) BLOCKED_SPECS"

definition security_row :: "'f float_ops \<Rightarrow> host \<Rightarrow> string \<Rightarrow> string \<Rightarrow> 'f security_result \<Rightarrow> bench_row" where
  "security_row fo h variant benchmark r =
     base_row h benchmark ''lidb'' ''pass_rate'' (map_option (fl_repr fo) (m_value r)) ''ratio'' variant
       (Some (m_passed r)) (m_flags r)"

definition measured ::
  "'f float_ops \<Rightarrow> host \<Rightarrow> config \<Rightarrow> string \<Rightarrow> string \<Rightarrow> 'f \<Rightarrow> string \<Rightarrow> string \<Rightarrow> bench_row" where
  "measured fo h cfg benchmark metric v unit flags =
     measured_row (\<lambda>x. fl_repr fo (fl_round fo 6 x)) h benchmark metric v unit (cfg_variant cfg) flags"

text \<open>The row of the publish benchmark: only \<open>CalledProcessError\<close> is caught.\<close>

definition publish_row ::
  "'f::{linorder,zero} float_ops \<Rightarrow> ('w, 'f, 'z) tier_os_scheme \<Rightarrow> host \<Rightarrow> config \<Rightarrow> string \<Rightarrow> string \<Rightarrow> string \<Rightarrow>
     ('w, bench_row) action" where
  "publish_row fo os h cfg exe data_dir pub_sql w =
     (case time_query fo os exe data_dir pub_sql (max 10 (cfg_read_iters cfg div 4)) w of
        (Inr v, w1) \<Rightarrow> (Inr (measured fo h cfg ''registry_publish'' ''latency_p95'' v ''ms'' ''lidb_embed_smoke_insert''), w1)
      | (Inl CalledProcessError, w1) \<Rightarrow>
          (Inr (blocked_row h ''registry_publish'' ''latency_p95'' ''ms'' ''publish_insert_failed'' (cfg_variant cfg)), w1)
      | (Inl e, w1) \<Rightarrow> (Inl e, w1))"

text \<open>The rows of the measurements, in the order in which they are appended.\<close>

definition tier_rows ::
  "'f float_ops \<Rightarrow> host \<Rightarrow> config \<Rightarrow> 'f \<Rightarrow> 'f \<Rightarrow> bench_row \<Rightarrow> 'f \<Rightarrow> 'f \<Rightarrow> 'f \<Rightarrow> 'f security_result \<Rightarrow>
     'f security_result \<Rightarrow> bench_row list" where
  "tier_rows fo h cfg by_name latest publish idle_mb peak_mb ops inj_res rls_res = [
       measured fo h cfg ''registry_read_by_name'' ''latency_p95'' by_name ''ms'' ''lidb_embed_smoke'',
       measured fo h cfg ''registry_read_latest'' ''latency_p95'' latest ''ms'' ''lidb_embed_smoke'',
       publish,
       measured fo h cfg ''rss_idle'' ''rss_mb'' idle_mb ''mb'' [],
       measured fo h cfg ''rss_peak_load'' ''rss_mb'' peak_mb ''mb'' [],
       measured fo h cfg ''concurrent_readers'' ''ops_per_sec'' ops ''ops'' ''lidb_embed_parallel'',
       blocked_row h ''concurrent_writers'' ''ops_per_sec'' ''ops'' ''writer_scalability_pending'' (cfg_variant cfg),
       security_row fo h (cfg_variant cfg) ''injection_blocked'' inj_res,
       security_row fo h (cfg_variant cfg) ''rls_bypass_blocked'' rls_res]"

text \<open>The body of the \<open>try\<close> of \<open>collect_rows\<close>.\<close>

definition measured_rows ::
  "'f::{linorder,zero} float_ops \<Rightarrow> ('w, 'f, 'z) tier_os_scheme \<Rightarrow> (string \<Rightarrow> int result) \<Rightarrow> (string \<Rightarrow> int option) \<Rightarrow>
     host \<Rightarrow> config \<Rightarrow> string \<Rightarrow> string \<Rightarrow> ('w, bench_row list) action" where
  "measured_rows fo os to_int to_kib h cfg exe data_dir =
     act_seq (check_run os [exe, ''open'', data_dir]) (\<lambda>_.
     act_seq (check_run os [exe, ''migrate'', data_dir]) (\<lambda>_.
     act_seq (seed_registry os exe data_dir) (\<lambda>(pkg_id, pub_id).
     act_seq (\<lambda>w. let (k, w1) = peak_rss_kib_darwin os to_kib [exe, ''migrate'', data_dir] w in (Inr k, w1)) (\<lambda>idle_kib.
     act_seq (time_query fo os exe data_dir (''SELECT id FROM packages WHERE name = '' @ sq ''li-bench'' @ '';'')
       (cfg_read_iters cfg)) (\<lambda>by_name.
     act_seq (time_query fo os exe data_dir
       (''SELECT version FROM package_versions WHERE package_id = '' @ sq pkg_id @ '';'') (cfg_read_iters cfg)) (\<lambda>latest.
     act_seq (uuid_act os) (\<lambda>ver.
     act_seq (publish_row fo os h cfg exe data_dir
       (''INSERT INTO package_versions (id, package_id, version, tree_digest, coverage_pct, publisher_id) '' @
        ''VALUES ('' @ sq ver @ '', '' @ sq pkg_id @ '', '' @ sq ''0.0.2-bench'' @ '', '' @ sq ''sha256:bench2'' @
        '', 100.0, '' @ sq pub_id @ '');'')) (\<lambda>publish.
     act_seq (measure_memory fo os to_int to_kib exe data_dir) (\<lambda>(idle, peak_mb).
     let idle_mb = (if idle_kib \<noteq> 0 then max idle (fl_div fo (fl_int fo idle_kib) (fl_int fo 1024)) else idle) in
     act_seq (measure_parallel_readers fo os to_int exe data_dir) (\<lambda>ops.
     act_seq (\<lambda>w. let (r, w1) = measure_security fo os w in (Inr r, w1)) (\<lambda>(inj_res, rls_res).
     act_ret (tier_rows fo h cfg by_name latest publish idle_mb peak_mb ops inj_res rls_res))))))))))))"

text \<open>The temporary directory is removed whether or not the measurements raise.\<close>

definition collect_rows ::
  "'f::{linorder,zero} float_ops \<Rightarrow> ('w, 'f, 'z) tier_os_scheme \<Rightarrow> (string \<Rightarrow> int result) \<Rightarrow> (string \<Rightarrow> int option) \<Rightarrow>
     host \<Rightarrow> config \<Rightarrow> ('w, bench_row list) action" where
  "collect_rows fo os to_int to_kib h cfg =
     act_seq (ensure_embed os cfg) (\<lambda>exe w.
       let (data_dir, w1) = os_mkdtemp os w;
           (r, w2) = measured_rows fo os to_int to_kib h cfg exe data_dir w1;
           w3 = os_rmtree os data_dir w2 in
       (ebind r (\<lambda>rows. Inr (rows @ blocked_rows h (cfg_variant cfg))), w3))"

text \<open>\<open>main\<close> of \<open>emit_csv.py\<close>.\<close>

definition emit_main ::
  "'f::{linorder,zero} float_ops \<Rightarrow> ('w, 'f, 'z) tier_os_scheme \<Rightarrow> (string \<Rightarrow> int result) \<Rightarrow> (string \<Rightarrow> int option) \<Rightarrow> host \<Rightarrow>
     ('w, string list) action" where
  "emit_main fo os to_int to_kib h w =
     act_seq (lift_result (tier_config os to_int w)) (\<lambda>cfg.
     act_seq (collect_rows fo os to_int to_kib h cfg) (\<lambda>rows w1.
     emit_all os rows (benchmarks_tier_root os w1) w1)) w"

section \<open>What the rows are\<close>

text \<open>An honest row: it claims to have passed only with a value, and a row without a value says
  in its flags that it was blocked.\<close>

definition honest_row :: "bench_row \<Rightarrow> bool" where
  "honest_row row \<longleftrightarrow> dict_keys row = FIELDNAMES \<and>
     (map_of row ''value'' = Some [] \<longrightarrow> map_of row ''passed'' = Some ''false'' \<and>
        (\<exists>r. map_of row ''flags'' = Some (''harness_blocked:'' @ r)))"

definition benchmark_of :: "bench_row \<Rightarrow> string" where
  "benchmark_of row = (case map_of row ''benchmark'' of None \<Rightarrow> [] | Some b \<Rightarrow> b)"

lemma benchmark_of_rows [simp]:
  "benchmark_of (base_row h b lang metric v unit variant passed flags) = b"
  "benchmark_of (blocked_row h b metric unit reason variant) = b"
  "benchmark_of (measured fo h cfg b metric x unit flags) = b"
  "benchmark_of (security_row fo h variant b r) = b"
  by (simp_all add: benchmark_of_def blocked_row_def measured_def measured_row_def security_row_def)

lemma blocked_row_honest [simp]: "honest_row (blocked_row h b metric unit reason variant)"
  by (simp add: honest_row_def blocked_row_def base_row_keys)

lemma measured_honest: "fl_repr fo (fl_round fo 6 x) \<noteq> [] \<Longrightarrow> honest_row (measured fo h cfg b metric x unit flags)"
  by (simp add: honest_row_def measured_def measured_row_def base_row_keys)

lemma security_row_honest:
  "(m_value r = None \<Longrightarrow> \<not> m_passed r \<and> (\<exists>w. m_flags r = ''harness_blocked:'' @ w)) \<Longrightarrow>
     (\<And>x. m_value r = Some x \<Longrightarrow> fl_repr fo x \<noteq> []) \<Longrightarrow> honest_row (security_row fo h variant b r)"
  by (cases "m_value r") (auto simp: honest_row_def security_row_def base_row_keys)

lemma injection_result_blocked:
  "m_value (injection_result fo p f) = None \<Longrightarrow>
     \<not> m_passed (injection_result fo p f) \<and> (\<exists>w. m_flags (injection_result fo p f) = ''harness_blocked:'' @ w)"
  by (auto simp: injection_result_def Let_def split: if_splits)

lemma rls_result_blocked:
  "m_value (rls_result fo cs) = None \<Longrightarrow>
     \<not> m_passed (rls_result fo cs) \<and> (\<exists>w. m_flags (rls_result fo cs) = ''harness_blocked:'' @ w)"
  by (auto simp: rls_result_def Let_def split: if_splits prod.splits)

lemma security_rows_honest:
  assumes "\<And>x. fl_repr fo x \<noteq> []"
  shows "honest_row (security_row fo h variant b (injection_result fo p f))"
    "honest_row (security_row fo h variant b (rls_result fo cs))"
  by (rule security_row_honest [OF injection_result_blocked]; simp add: assms)
    (rule security_row_honest [OF rls_result_blocked]; simp add: assms)

lemma publish_row_Inr:
  "publish_row fo os h cfg exe d sql w = (Inr row, w') \<Longrightarrow>
     (\<exists>x. row = measured fo h cfg ''registry_publish'' ''latency_p95'' x ''ms'' ''lidb_embed_smoke_insert'') \<or>
     row = blocked_row h ''registry_publish'' ''latency_p95'' ''ms'' ''publish_insert_failed'' (cfg_variant cfg)"
  by (auto simp: publish_row_def split: prod.splits sum.splits exc.splits)

lemma measured_rows_Inr:
  assumes "measured_rows fo os to_int to_kib h cfg exe d w = (Inr rows, w')"
  shows "\<exists>by_name latest publish idle peak ops inj_res rls_res sql w1 w2 w3.
     rows = tier_rows fo h cfg by_name latest publish idle peak ops inj_res rls_res \<and>
     publish_row fo os h cfg exe d sql w1 = (Inr publish, w2) \<and>
     inj_res = fst (fst (measure_security fo os w3)) \<and> rls_res = snd (fst (measure_security fo os w3))"
  using assms unfolding measured_rows_def
  by (auto simp: act_seq_eq_Inr Let_def split_beta) blast+

lemma measure_security_blocked:
  shows "\<exists>p f cs. fst (fst (measure_security fo os w)) = injection_result fo p f \<and>
    snd (fst (measure_security fo os w)) = rls_result fo cs"
  by (auto simp: measure_security_def Let_def split: prod.splits)

definition CATALOG_BENCHMARKS :: "string list" where
  "CATALOG_BENCHMARKS = [''registry_read_by_name'', ''registry_read_latest'', ''registry_publish'', ''rss_idle'',
     ''rss_peak_load'', ''concurrent_readers'', ''concurrent_writers'', ''injection_blocked'', ''rls_bypass_blocked'']
     @ map fst BLOCKED_SPECS"

lemma catalog_benchmarks: "distinct CATALOG_BENCHMARKS" "set CATALOG_BENCHMARKS = set (dict_keys TIER_DIRS)"
  by code_simp+

lemma blocked_rows_benchmarks: "map benchmark_of (blocked_rows h variant) = map fst BLOCKED_SPECS"
  by (simp add: blocked_rows_def split_beta)

lemma blocked_rows_honest: "list_all honest_row (blocked_rows h variant)"
  by (simp add: blocked_rows_def list_all_iff split_beta)

lemma collect_rows_Inr:
  assumes c: "collect_rows fo os to_int to_kib h cfg w = (Inr rows, w')" and repr: "\<And>x. fl_repr fo x \<noteq> []"
  shows "map benchmark_of rows = CATALOG_BENCHMARKS" "list_all honest_row rows"
proof -
  obtain exe v where k: "(let (data_dir, w1) = os_mkdtemp os v;
      (r, w2) = measured_rows fo os to_int to_kib h cfg exe data_dir w1; w3 = os_rmtree os data_dir w2 in
      (ebind r (\<lambda>rows. Inr (rows @ blocked_rows h (cfg_variant cfg))), w3)) = (Inr rows, w')"
    using c by (auto simp: collect_rows_def act_seq_eq_Inr)
  obtain d w1 r w2 where dw: "os_mkdtemp os v = (d, w1)" "measured_rows fo os to_int to_kib h cfg exe d w1 = (r, w2)"
    by (metis surj_pair)
  then obtain rs where m: "measured_rows fo os to_int to_kib h cfg exe d w1 = (Inr rs, w2)"
    and rows: "rows = rs @ blocked_rows h (cfg_variant cfg)"
    using k by (auto simp: ebind_eq_Inr Let_def)
  obtain by_name latest publish idle peak ops inj_res rls_res sql v1 v2 v3 where
    rs: "rs = tier_rows fo h cfg by_name latest publish idle peak ops inj_res rls_res"
    and pub: "publish_row fo os h cfg exe d sql v1 = (Inr publish, v2)"
    and sec: "inj_res = fst (fst (measure_security fo os v3))" "rls_res = snd (fst (measure_security fo os v3))"
    using measured_rows_Inr [OF m] by blast
  have p: "benchmark_of publish = ''registry_publish''" "honest_row publish"
    using publish_row_Inr [OF pub] by (auto simp: measured_honest repr)
  have s: "honest_row (security_row fo h (cfg_variant cfg) b inj_res)"
    "honest_row (security_row fo h (cfg_variant cfg) b rls_res)" for b
    using measure_security_blocked [of fo os v3, folded sec] security_rows_honest [OF repr] by auto
  show "map benchmark_of rows = CATALOG_BENCHMARKS"
    by (simp add: rows rs tier_rows_def p blocked_rows_benchmarks CATALOG_BENCHMARKS_def)
  show "list_all honest_row rows"
    by (simp add: rows rs tier_rows_def p s blocked_rows_honest measured_honest repr)
qed

text \<open>Every row of the catalog has a tier.\<close>

lemma catalog_tiers:
  assumes "map benchmark_of rows = CATALOG_BENCHMARKS" "list_all honest_row rows"
  shows "\<forall>r\<in>set rows. map_of r ''benchmark'' \<noteq> None" "\<forall>r\<in>set rows. tier_of r \<noteq> None"
proof -
  have bench: "map_of row ''benchmark'' \<noteq> None" if "row \<in> set rows" for row
  proof -
    have "dict_keys row = FIELDNAMES" using assms(2) that by (simp add: list_all_iff honest_row_def)
    then show ?thesis
      using map_of_dict_key [of "''benchmark''" row] by (simp add: FIELDNAMES_def)
  qed
  then show "\<forall>r\<in>set rows. map_of r ''benchmark'' \<noteq> None" by blast
  have "tier_of row \<noteq> None" if "row \<in> set rows" for row
  proof -
    have "benchmark_of row \<in> set (dict_keys TIER_DIRS)"
      using that assms(1) catalog_benchmarks(2) by (metis imageI list.set_map)
    with bench [OF that] show ?thesis
      using map_of_dict_key [of "benchmark_of row" TIER_DIRS] by (auto simp: tier_of_def benchmark_of_def)
  qed
  then show "\<forall>r\<in>set rows. tier_of r \<noteq> None" by blast
qed

end
