(* ===== verification/Bench_Harness.thy ===== *)
theory Bench_Harness
  imports Bench_Csv
begin

text \<open>
  \<open>scripts/bench/harness_emit.py\<close>: the status of a benchmark tier and its JSON report. The time
  stamp and the environment are parameters; the command line is already parsed
  (\<open>argparse\<close> is a library).
\<close>

section \<open>Status\<close>

type_synonym scenario = "(string, json) dict"

definition scenario_status :: "scenario \<Rightarrow> json" where
  "scenario_status s = (case map_of s ''status'' of None \<Rightarrow> JNull | Some v \<Rightarrow> v)"

text \<open>Only a hashable value can be put into a set.\<close>

fun hashable :: "json \<Rightarrow> bool" where
  "hashable (JList _) = False"
| "hashable (JObj _) = False"
| "hashable _ = True"

definition tier_status :: "scenario list \<Rightarrow> string result" where
  "tier_status scenarios =
     (if \<not> list_all (\<lambda>s. hashable (scenario_status s)) scenarios then Inl TypeError
      else
        let statuses = set (map scenario_status scenarios);
            measured = statuses - {JStr ''stub''} in
        if JStr ''red'' \<in> statuses then Inr ''fail''
        else if measured = {} then Inr ''stub''
        else if measured \<subseteq> {JStr ''green''} then Inr ''pass''
        else if measured = {JStr ''unknown''} \<or> measured \<subseteq> {JStr ''unknown'', JStr ''stub''} then Inr ''unknown''
        else Inr ''unknown'')"

section \<open>Report\<close>

text \<open>The loop over the scenarios: \<open>engines\<close> gets a default, \<open>lidb\<close> moves into it.\<close>

definition with_engines :: "scenario \<Rightarrow> scenario result" where
  "with_engines s =
     (let s1 = (if map_of s ''engines'' = None
                then AList.update ''engines'' (JObj [(''lidb'', JNull), (''postgres'', JNull)]) s else s) in
      (case map_of s1 ''lidb'' of
         None \<Rightarrow> Inr s1
       | Some v \<Rightarrow>
           let s2 = AList.delete ''lidb'' s1 in
           (case map_of s2 ''engines'' of
              Some (JObj d) \<Rightarrow> Inr (AList.update ''engines'' (JObj (AList.update ''lidb'' v d)) s2)
            | _ \<Rightarrow> Inl TypeError)))"

definition build_payload :: "string \<Rightarrow> string option \<Rightarrow> string \<Rightarrow> string \<Rightarrow> scenario list \<Rightarrow> (string, json) dict result" where
  "build_payload now version tier profile scenarios =
     ebind (emap with_engines scenarios) (\<lambda>scenarios.
     ebind (tier_status scenarios) (\<lambda>status.
     Inr [(''generated_at'', JStr now),
          (''tier'', JStr tier),
          (''profile'', JStr profile),
          (''status'', JStr status),
          (''compare_oracle'', JNull),
          (''harness_repo'', JStr ''lidb''),
          (''harness_version'', JStr (case version of None \<Rightarrow> ''1'' | Some v \<Rightarrow> v)),
          (''scenarios'', JList (map JObj scenarios)),
          (''ph_ids'', JList [])]))"

section \<open>The script\<close>

text \<open>\<open>json.dumps(v, indent=2)\<close>\<close>

definition pad :: "nat \<Rightarrow> string" where
  "pad n = CHR 0x0A # replicate (2 * n) (CHR '' '')"

fun dumps_indent :: "nat \<Rightarrow> json \<Rightarrow> string" where
  "dumps_indent n (JList vs) =
     (if vs = [] then ''[]''
      else ''['' @ pad (n + 1) @ join ('','' @ pad (n + 1)) (map (dumps_indent (n + 1)) vs) @ pad n @ '']'')"
| "dumps_indent n (JObj kvs) =
     (if kvs = [] then ''{}''
      else ''{'' @ pad (n + 1) @
        join ('','' @ pad (n + 1)) (map (\<lambda>(k, v). dumps_str k @ '': '' @ dumps_indent (n + 1) v) kvs) @ pad n @ ''}'')"
| "dumps_indent n v = dumps '','' '': '' v"

fun scenario_of :: "json \<Rightarrow> scenario result" where
  "scenario_of (JObj d) = Inr d"
| "scenario_of _ = Inl AttributeError"

text \<open>Iterating over what \<open>json.loads\<close> returns: a text yields texts, an object its keys.\<close>

fun scenarios_of :: "json \<Rightarrow> scenario list result" where
  "scenarios_of (JList vs) = emap scenario_of vs"
| "scenarios_of (JStr s) = (if s = [] then Inr [] else Inl AttributeError)"
| "scenarios_of (JObj kvs) = (if kvs = [] then Inr [] else Inl AttributeError)"
| "scenarios_of _ = Inl TypeError"

text \<open>The text goes to the file \<open>BENCH_HARNESS_JSON\<close> names, else to standard output; the exit
  code is 0 unless the status is \<open>fail\<close>.\<close>

definition harness_main ::
  "('w, 'z) bench_os_scheme \<Rightarrow> string \<Rightarrow> string \<Rightarrow> string \<Rightarrow> string \<Rightarrow> 'w \<Rightarrow> (string \<times> int) result \<times> 'w" where
  "harness_main os now tier profile scenarios_json w =
     act_seq (lift_result (loads scenarios_json)) (\<lambda>v.
     act_seq (lift_result (scenarios_of v)) (\<lambda>scenarios.
     act_seq (lift_result (build_payload now (os_getenv os ''LIDB_BENCH_HARNESS_VERSION'' w) tier profile scenarios)) (\<lambda>payload w1.
       let out = dumps_indent 0 (JObj payload) @ [CHR 0x0A];
           out_path = py_strip (case os_getenv os ''BENCH_HARNESS_JSON'' w1 of None \<Rightarrow> [] | Some p \<Rightarrow> p);
           code = (if map_of payload ''status'' = Some (JStr ''fail'') then 1 else 0) in
       if out_path \<noteq> [] then (Inr ([], code), os_write os out_path out w1)
       else (Inr (out, code), w1)))) w"

section \<open>What the status says\<close>

definition has_status :: "scenario list \<Rightarrow> string \<Rightarrow> bool" where
  "has_status scenarios x \<longleftrightarrow> (\<exists>s\<in>set scenarios. scenario_status s = JStr x)"

lemma tier_status_eq:
  assumes "tier_status scs = Inr x"
  shows "x = (if has_status scs ''red'' then ''fail''
    else if \<forall>s\<in>set scs. scenario_status s = JStr ''stub'' then ''stub''
    else if \<forall>s\<in>set scs. scenario_status s \<in> {JStr ''green'', JStr ''stub''} then ''pass''
    else ''unknown'')"
proof -
  let ?S = "set (map scenario_status scs)"
  have red: "JStr ''red'' \<in> ?S \<longleftrightarrow> has_status scs ''red''"
    unfolding has_status_def set_map image_iff by (intro bex_cong refl) (rule eq_commute)
  have stub: "?S - {JStr ''stub''} = {} \<longleftrightarrow> (\<forall>s\<in>set scs. scenario_status s = JStr ''stub'')"
    unfolding set_map by blast
  have green: "?S - {JStr ''stub''} \<subseteq> {JStr ''green''} \<longleftrightarrow>
      (\<forall>s\<in>set scs. scenario_status s \<in> {JStr ''green'', JStr ''stub''})"
    unfolding set_map by blast
  from assms show ?thesis
    unfolding tier_status_def Let_def red stub green by (auto split: if_splits)
qed

lemma tier_status_cases:
  assumes "tier_status scs = Inr x"
  shows "x = ''fail'' \<longleftrightarrow> has_status scs ''red''"
    "x = ''stub'' \<longleftrightarrow> (\<forall>s\<in>set scs. scenario_status s = JStr ''stub'')"
    "x = ''pass'' \<longleftrightarrow> has_status scs ''green'' \<and> (\<forall>s\<in>set scs. scenario_status s \<in> {JStr ''green'', JStr ''stub''})"
    "x \<in> {''fail'', ''pass'', ''stub'', ''unknown''}"
  unfolding tier_status_eq [OF assms] has_status_def by (simp, force, force, simp)

text \<open>Moving the engines about leaves the status of a scenario alone.\<close>

lemma with_engines_status: "with_engines s = Inr s' \<Longrightarrow> scenario_status s' = scenario_status s"
  by (auto simp: with_engines_def scenario_status_def Let_def map_of_update_dict delete_conv'
      split: if_splits option.splits json.splits)

lemma emap_with_engines_status:
  "emap with_engines scs = Inr scs' \<Longrightarrow> map scenario_status scs' = map scenario_status scs"
  by (induction scs arbitrary: scs') (auto simp: ebind_eq_Inr with_engines_status)

lemma tier_status_cong:
  "map scenario_status scs = map scenario_status scs' \<Longrightarrow> tier_status scs = tier_status scs'"
proof -
  have "list_all (\<lambda>s. hashable (scenario_status s)) xs \<longleftrightarrow> list_all hashable (map scenario_status xs)" for xs
    by (simp add: list_all_iff)
  then show "map scenario_status scs = map scenario_status scs' \<Longrightarrow> tier_status scs = tier_status scs'"
    by (simp only: tier_status_def)
qed

lemma build_payload_status:
  "build_payload now version tier profile scs = Inr p \<Longrightarrow>
     \<exists>x. tier_status scs = Inr x \<and> map_of p ''status'' = Some (JStr x)"
  using tier_status_cong [OF emap_with_engines_status] by (fastforce simp: build_payload_def ebind_eq_Inr)

end
