(* ===== verification/Bench_Compare.thy ===== *)
theory Bench_Compare
  imports Bench_Harness Bench_Stats
begin

text \<open>
  \<open>scripts/bench/registry_oltp_compare.py\<close>: the registry operations timed on the embedded engine
  and on PostgreSQL, and the verdict on their ratio. PostgreSQL and its driver are third-party:
  \<open>pg\<close> is, when there is a connection, the timed function of each scenario.
\<close>

section \<open>The embedded engine\<close>

definition cmp_embed_binary :: "('w, 'z) os_scheme \<Rightarrow> 'w \<Rightarrow> string option" where
  "cmp_embed_binary os w =
     (let candidates = find (\<lambda>c. os_is_file os c w)
            [os_root os @ ''/build/smoke/lidb_embed'', os_root os @ ''/build/lidb_embed''] in
      (case os_getenv os ''LIDB_EMBED'' w of
         None \<Rightarrow> candidates
       | Some env \<Rightarrow> if env \<noteq> [] \<and> os_is_file os env w then Some env else candidates))"

text \<open>\<open>check=False\<close>: a failed build is noticed by the missing binary.\<close>

definition cmp_build_embed :: "('w, 'z) os_scheme \<Rightarrow> 'w \<Rightarrow> string option \<times> 'w" where
  "cmp_build_embed os w =
     (let build = os_root os @ ''/build/smoke'';
          w1 = os_mkdir os build w;
          w2 = snd (os_run os [''cmake'', ''-S'', os_root os, ''-B'', build, ''-DCMAKE_BUILD_TYPE=Release''] None w1);
          w3 = snd (os_run os [''cmake'', ''--build'', build, ''--target'', ''lidb_embed'', ''-j''] None w2)
      in (cmp_embed_binary os w3, w3))"

definition find_or_build :: "('w, 'z) os_scheme \<Rightarrow> 'w \<Rightarrow> string option \<times> 'w" where
  "find_or_build os w =
     (case cmp_embed_binary os w of Some exe \<Rightarrow> (Some exe, w) | None \<Rightarrow> cmp_build_embed os w)"

definition lidb_exec :: "('w, 'z) os_scheme \<Rightarrow> string \<Rightarrow> string \<Rightarrow> string list \<Rightarrow> ('w, unit) action" where
  "lidb_exec os data_dir sql params w =
     (let (found, w1) = find_or_build os w in
      (case found of
         None \<Rightarrow> (Inl RuntimeError, w1)
       | Some exe \<Rightarrow>
           let (p, w2) = os_run os [exe, ''exec-json'', data_dir, sql]
                 (Some (dumps '', '' '': '' (JList (map JStr params)))) w1 in
           if returncode p \<noteq> 0 then (Inl RuntimeError, w2) else (Inr (), w2)))"

fun run_each :: "('w, 'z) os_scheme \<Rightarrow> string \<Rightarrow> string \<Rightarrow> string list \<Rightarrow> ('w, unit) action" where
  "run_each os exe data_dir [] = act_ret ()"
| "run_each os exe data_dir (cmd # cmds) = (\<lambda>w.
     let (p, w1) = os_run os [exe, cmd, data_dir] None w in
     if returncode p \<noteq> 0 then (Inl RuntimeError, w1) else run_each os exe data_dir cmds w1)"

definition lidb_open_migrate :: "('w, 'z) os_scheme \<Rightarrow> string \<Rightarrow> ('w, unit) action" where
  "lidb_open_migrate os data_dir w =
     (let (found, w1) = find_or_build os w in
      (case found of
         None \<Rightarrow> (Inl RuntimeError, w1)
       | Some exe \<Rightarrow> run_each os exe data_dir [''open'', ''migrate''] w1))"

section \<open>The scenarios\<close>

definition SCENARIOS :: "string list" where
  "SCENARIOS = [''registry_publish'', ''registry_read_by_name'', ''registry_read_latest'']"

definition seed_lidb :: "('w, 'z) os_scheme \<Rightarrow> string \<Rightarrow> ('w, unit) action" where
  "seed_lidb os d =
     act_seq (lidb_exec os d ''INSERT INTO publishers (id, name, public_key) VALUES (?, ?, ?)''
       [''1'', ''bench-pub'', ''00'']) (\<lambda>_.
     act_seq (lidb_exec os d ''INSERT INTO packages (id, name) VALUES (?, ?)'' [''1'', ''bench-pkg'']) (\<lambda>_.
     lidb_exec os d (''INSERT INTO package_versions (id, package_id, version, tree_digest, coverage_pct, publisher_id, yanked) '' @
       ''VALUES (?, ?, ?, ?, ?, ?, ?)'') [''1'', ''1'', ''0.1.0'', ''sha256:tree'', ''90'', ''1'', ''0'']))"

text \<open>The state of the comparison: the system and the two counters of published versions.\<close>

type_synonym 'w cmp_state = "'w \<times> nat \<times> nat"

type_synonym ('w, 'a) cmp_action = "('w cmp_state, 'a) action"

definition on_world :: "('w, 'a) action \<Rightarrow> ('w, 'a) cmp_action" where
  "on_world a = (\<lambda>(w, n). let (r, w1) = a w in (r, w1, n))"

definition lidb_publish :: "('w, 'z) os_scheme \<Rightarrow> string \<Rightarrow> ('w, unit) cmp_action" where
  "lidb_publish os d = (\<lambda>(w, n, pn).
     let m = n + 1;
         (r, w1) = lidb_exec os d
           (''INSERT INTO package_versions (package_id, version, tree_digest, coverage_pct, publisher_id) '' @
            ''VALUES (?, ?, ?, ?, ?)'') [''1'', ''0.0.'' @ show_nat m, ''sha256:t'' @ show_nat m, ''90'', ''1''] w
     in (r, w1, m, pn))"

definition lidb_read_name :: "('w, 'z) os_scheme \<Rightarrow> string \<Rightarrow> ('w, unit) cmp_action" where
  "lidb_read_name os d = on_world (lidb_exec os d ''SELECT id, name FROM packages WHERE name = ?'' [''bench-pkg''])"

definition lidb_read_latest :: "('w, 'z) os_scheme \<Rightarrow> string \<Rightarrow> ('w, unit) cmp_action" where
  "lidb_read_latest os d = on_world (lidb_exec os d
     (''SELECT pv.version FROM package_versions pv JOIN packages p ON p.id = pv.package_id '' @
      ''WHERE p.name = ?'') [''bench-pkg''])"

definition scenario_fn :: "('w, 'z) os_scheme \<Rightarrow> string \<Rightarrow> string \<Rightarrow> ('w, unit) cmp_action" where
  "scenario_fn os d sid =
     (if sid = ''registry_publish'' then lidb_publish os d
      else if sid = ''registry_read_by_name'' then lidb_read_name os d
      else if sid = ''registry_read_latest'' then lidb_read_latest os d
      else act_raise (KeyError sid))"

section \<open>PostgreSQL\<close>

text \<open>\<open>psycopg2\<close>: whether it can be imported, \<open>connect\<close>, and the calls on the connection and its
  cursor. Texts over several lines of the source are joined by blanks.\<close>

record 'w pg_driver =
  pg_available :: bool
  pg_connect_to :: "string \<Rightarrow> ('w, unit) action"
  pg_execute :: "string \<Rightarrow> pyval list \<Rightarrow> ('w, unit) action"
  pg_fetchone :: "('w, unit) action"
  pg_commit :: "('w, unit) action"
  pg_close :: "('w, unit) action"

definition pg_url :: "('w, 'z) os_scheme \<Rightarrow> 'w \<Rightarrow> string option" where
  "pg_url os w =
     (case os_getenv os ''POSTGRES_URL'' w of
        Some (c # u) \<Rightarrow> Some (c # u)
      | _ \<Rightarrow> (case os_getenv os ''DATABASE_URL'' w of Some (c # u) \<Rightarrow> Some (c # u) | _ \<Rightarrow> None))"

text \<open>Whether there is a connection.\<close>

definition pg_connect :: "('w, 'z) os_scheme \<Rightarrow> 'w pg_driver \<Rightarrow> ('w, bool) action" where
  "pg_connect os drv w =
     (case pg_url os w of
        None \<Rightarrow> (Inr False, w)
      | Some url \<Rightarrow>
          if \<not> pg_available drv then (Inr False, w)
          else act_seq (pg_connect_to drv url) (\<lambda>_. act_ret True) w)"

definition PG_SCHEMA :: string where
  "PG_SCHEMA =
     ''CREATE TABLE IF NOT EXISTS publishers ( id SERIAL PRIMARY KEY, name TEXT UNIQUE NOT NULL, '' @
     ''public_key BYTEA NOT NULL DEFAULT '' @ [CHR 0x27, CHR 0x5C] @ ''x00'' @ [CHR 0x27] @ '' ); '' @
     ''CREATE TABLE IF NOT EXISTS packages ( id SERIAL PRIMARY KEY, name TEXT UNIQUE NOT NULL, description TEXT ); '' @
     ''CREATE TABLE IF NOT EXISTS package_versions ( id SERIAL PRIMARY KEY, package_id INT REFERENCES packages(id), '' @
     ''version TEXT NOT NULL, tree_digest TEXT NOT NULL, proof_digest TEXT, '' @
     ''coverage_pct DOUBLE PRECISION NOT NULL DEFAULT 90, publisher_id INT REFERENCES publishers(id) DEFAULT 1, '' @
     ''published_at TIMESTAMPTZ DEFAULT now(), yanked BOOLEAN DEFAULT false, UNIQUE (package_id, version) );''"

definition pg_seed :: "'w pg_driver \<Rightarrow> ('w, unit) action" where
  "pg_seed drv =
     act_seq (pg_execute drv PG_SCHEMA []) (\<lambda>_.
     act_seq (pg_execute drv (''INSERT INTO publishers (name) VALUES ('' @ CHR 0x27 # ''bench-pub'' @ CHR 0x27 #
       '') ON CONFLICT DO NOTHING'') []) (\<lambda>_.
     act_seq (pg_execute drv (''INSERT INTO packages (name) VALUES ('' @ CHR 0x27 # ''bench-pkg'' @ CHR 0x27 #
       '') ON CONFLICT DO NOTHING'') []) (\<lambda>_.
     pg_commit drv)))"

definition pg_publish :: "'w pg_driver \<Rightarrow> ('w, unit) cmp_action" where
  "pg_publish drv = (\<lambda>(w, n, pn).
     let m = pn + 1;
         (r, w1) = act_seq (pg_execute drv
             (''INSERT INTO package_versions (package_id, version, tree_digest, coverage_pct) '' @
              ''VALUES ((SELECT id FROM packages WHERE name=%s), %s, %s, %s)'')
             [PStr ''bench-pkg'', PStr (''0.0.'' @ show_nat m), PStr (''sha256:t'' @ show_nat m), PFloat ''90.0''])
           (\<lambda>_. pg_commit drv) w
     in (r, w1, n, m))"

definition pg_read_name :: "'w pg_driver \<Rightarrow> ('w, unit) cmp_action" where
  "pg_read_name drv = on_world (act_seq
     (pg_execute drv ''SELECT id, name FROM packages WHERE name=%s'' [PStr ''bench-pkg'']) (\<lambda>_. pg_fetchone drv))"

definition pg_read_latest :: "'w pg_driver \<Rightarrow> ('w, unit) cmp_action" where
  "pg_read_latest drv = on_world (act_seq
     (pg_execute drv (''SELECT pv.version FROM package_versions pv JOIN packages p ON p.id = pv.package_id '' @
        ''WHERE p.name = %s ORDER BY pv.published_at DESC LIMIT 1'') [PStr ''bench-pkg'']) (\<lambda>_. pg_fetchone drv))"

definition pg_fn :: "'w pg_driver \<Rightarrow> string \<Rightarrow> ('w, unit) cmp_action" where
  "pg_fn drv sid =
     (if sid = ''registry_publish'' then pg_publish drv
      else if sid = ''registry_read_by_name'' then pg_read_name drv
      else if sid = ''registry_read_latest'' then pg_read_latest drv
      else act_raise (KeyError sid))"

section \<open>The verdict\<close>

record 'f compare_row =
  cr_benchmark :: string
  cr_lidb_p95 :: 'f
  cr_lidb_p50 :: 'f
  cr_postgres_p95 :: "'f option"
  cr_ratio :: "'f option"
  cr_threshold :: 'f
  cr_status :: string

text \<open>\<open>p95_p\<close> is \<open>None\<close> without a connection.\<close>

definition compare_row_of ::
  "'f::{linorder,zero} float_ops \<Rightarrow> 'f \<Rightarrow> string \<Rightarrow> 'f \<Rightarrow> 'f \<Rightarrow> 'f option \<Rightarrow> 'f compare_row" where
  "compare_row_of fo threshold sid p50_l p95_l p95_p =
     (let ratio = (case p95_p of
                     None \<Rightarrow> None
                   | Some p \<Rightarrow> if p \<noteq> 0 \<and> p > 0 then Some (fl_round fo 4 (fl_div fo p95_l p)) else None);
          status = (case ratio of
                      None \<Rightarrow> ''measured''
                    | Some r \<Rightarrow> if r \<le> threshold then ''passed'' else ''failed'') in
      \<lparr>cr_benchmark = sid,
       cr_lidb_p95 = fl_round fo 4 p95_l,
       cr_lidb_p50 = fl_round fo 4 p50_l,
       cr_postgres_p95 = (case p95_p of None \<Rightarrow> None | Some p \<Rightarrow> if p \<noteq> 0 then Some (fl_round fo 4 p) else None),
       cr_ratio = ratio,
       cr_threshold = threshold,
       cr_status = (if p95_p \<noteq> None then status else ''unknown'')\<rparr>)"

text \<open>The loop over the scenarios; \<open>pg\<close> says whether there is a connection.\<close>

fun compare_rows ::
  "'f::{linorder,zero} float_ops \<Rightarrow> ('w cmp_state \<Rightarrow> 'f \<times> 'w cmp_state) \<Rightarrow> ('w, 'z) os_scheme \<Rightarrow> 'w pg_driver \<Rightarrow> string \<Rightarrow>
     bool \<Rightarrow> 'f \<Rightarrow> nat \<Rightarrow> nat \<Rightarrow> string list \<Rightarrow> ('w, 'f compare_row list) cmp_action" where
  "compare_rows fo clock os drv d pg threshold warmup measured [] = act_ret []"
| "compare_rows fo clock os drv d pg threshold warmup measured (sid # sids) =
     act_seq (time_fn fo clock (scenario_fn os d sid) warmup measured) (\<lambda>(p50_l, p95_l).
     act_seq (if pg then act_seq (time_fn fo clock (pg_fn drv sid) warmup measured) (\<lambda>(_, p95_p). act_ret (Some p95_p))
              else act_ret None) (\<lambda>p95_p.
     act_seq (compare_rows fo clock os drv d pg threshold warmup measured sids) (\<lambda>rows.
     act_ret (compare_row_of fo threshold sid p50_l p95_l p95_p # rows))))"

record 'f comparison =
  cmp_engine_mode :: string
  cmp_profile :: string
  cmp_threshold :: 'f
  cmp_rows :: "'f compare_row list"

text \<open>The profile \<open>ci\<close> caps the iterations.\<close>

definition iterations :: "string \<Rightarrow> nat \<Rightarrow> nat \<Rightarrow> nat \<times> nat" where
  "iterations profile warmup measured =
     (if profile = ''ci'' then (min warmup 5, min measured 30) else (warmup, measured))"

definition run_compare ::
  "'f::{linorder,zero} float_ops \<Rightarrow> ('w cmp_state \<Rightarrow> 'f \<times> 'w cmp_state) \<Rightarrow> ('w, 'z) os_scheme \<Rightarrow> 'w pg_driver \<Rightarrow>
     'f \<Rightarrow> string \<Rightarrow> nat \<Rightarrow> nat \<Rightarrow> ('w, 'f comparison) action" where
  "run_compare fo clock os drv threshold profile warmup measured w =
     (let (warm, iters) = iterations profile warmup measured;
          (d, w1) = os_mkdtemp os w in
      act_seq (lidb_open_migrate os d) (\<lambda>_.
      act_seq (seed_lidb os d) (\<lambda>_.
      act_seq (pg_connect os drv) (\<lambda>pg.
      act_seq (if pg then pg_seed drv else act_ret ()) (\<lambda>_.
      act_seq (\<lambda>w2. let (r, w3, _) = compare_rows fo clock os drv d pg threshold warm iters SCENARIOS (w2, 1, 1000) in (r, w3)) (\<lambda>rows.
      act_seq (if pg then pg_close drv else act_ret ()) (\<lambda>_.
      act_ret
        \<lparr>cmp_engine_mode = (if pg then ''lidb_vs_postgres'' else ''lidb_only''),
         cmp_profile = profile, cmp_threshold = threshold, cmp_rows = rows\<rparr>)))))) w1)"

section \<open>The report\<close>

definition float_json :: "'f float_ops \<Rightarrow> 'f option \<Rightarrow> json" where
  "float_json fo x = (case x of None \<Rightarrow> JNull | Some v \<Rightarrow> JFloat (fl_repr fo v))"

definition compare_row_json :: "'f float_ops \<Rightarrow> 'f compare_row \<Rightarrow> json" where
  "compare_row_json fo r = JObj [
     (''benchmark'', JStr (cr_benchmark r)),
     (''lidb_p95_ms'', float_json fo (Some (cr_lidb_p95 r))),
     (''lidb_p50_ms'', float_json fo (Some (cr_lidb_p50 r))),
     (''postgres_p95_ms'', float_json fo (cr_postgres_p95 r)),
     (''ratio_vs_postgres'', float_json fo (cr_ratio r)),
     (''threshold'', float_json fo (Some (cr_threshold r))),
     (''status'', JStr (cr_status r))]"

definition comparison_json :: "'f float_ops \<Rightarrow> 'f comparison \<Rightarrow> json" where
  "comparison_json fo c = JObj [
     (''engine_mode'', JStr (cmp_engine_mode c)),
     (''profile'', JStr (cmp_profile c)),
     (''threshold'', float_json fo (Some (cmp_threshold c))),
     (''rows'', JList (map (compare_row_json fo) (cmp_rows c))),
     (''ph_ids'', JList [JStr ''PH-DB-5''])]"

text \<open>\<open>main\<close>, after the command line is parsed: the exit code. The lines it prints are left out.\<close>

definition cmp_main ::
  "'f::{linorder,zero} float_ops \<Rightarrow> ('w cmp_state \<Rightarrow> 'f \<times> 'w cmp_state) \<Rightarrow> ('w, 'z) bench_os_scheme \<Rightarrow> 'w pg_driver \<Rightarrow>
     'f \<Rightarrow> string \<Rightarrow> nat \<Rightarrow> nat \<Rightarrow> string \<Rightarrow> ('w, int) action" where
  "cmp_main fo clock os drv threshold profile warmup measured json_out w =
     (let (found, w1) = find_or_build os w in
      if found = None then (Inr 1, w1)
      else act_seq (run_compare fo clock os drv threshold profile warmup measured) (\<lambda>payload w2.
        (Inr 0, os_write os json_out (dumps_indent 0 (comparison_json fo payload) @ [CHR 0x0A])
           (os_mkdir os (parent_dir json_out) w2))) w1)"

section \<open>What the verdict says\<close>

lemma compare_row_status:
  "cr_status (compare_row_of fo thr sid p50 p95 p) = ''passed'' \<longleftrightarrow>
     (\<exists>q>0. p = Some q \<and> fl_round fo 4 (fl_div fo p95 q) \<le> thr)"
  "cr_status (compare_row_of fo thr sid p50 p95 p) = ''failed'' \<longleftrightarrow>
     (\<exists>q>0. p = Some q \<and> \<not> fl_round fo 4 (fl_div fo p95 q) \<le> thr)"
  "cr_status (compare_row_of fo thr sid p50 p95 p) = ''unknown'' \<longleftrightarrow> p = None"
  by (auto simp: compare_row_of_def Let_def split: option.splits)

lemma compare_rows_Inr:
  "compare_rows fo clock os drv d pg thr warmup measured sids s = (Inr rows, s') \<Longrightarrow>
     map cr_benchmark rows = sids \<and> (\<forall>row\<in>set rows. cr_status row = ''unknown'' \<longleftrightarrow> \<not> pg)"
proof (induction sids arbitrary: s s' rows)
  case (Cons sid sids)
  then obtain p50 p95 p s1 s2 rest where
    rest: "compare_rows fo clock os drv d pg thr warmup measured sids s1 = (Inr rest, s2)"
    and rows: "rows = compare_row_of fo thr sid p50 p95 p # rest" and p: "p = None \<longleftrightarrow> \<not> pg"
    by (cases pg) (auto simp: act_seq_eq_Inr split_beta)
  from Cons.IH [OF rest] p show ?case
    by (auto simp: rows compare_row_status) (simp_all add: compare_row_of_def Let_def)
qed simp

lemma run_compare_Inr:
  assumes "run_compare fo clock os drv thr profile warmup measured w = (Inr c, w')"
  shows "map cr_benchmark (cmp_rows c) = SCENARIOS"
    "\<forall>row\<in>set (cmp_rows c). cr_status row = ''unknown'' \<longleftrightarrow> cmp_engine_mode c = ''lidb_only''"
proof -
  obtain warm iters d w1 where i: "iterations profile warmup measured = (warm, iters)" "os_mkdtemp os w = (d, w1)"
    by (metis surj_pair)
  with assms obtain pg w2 w3 rows where
    k: "(case compare_rows fo clock os drv d pg thr warm iters SCENARIOS (w2, 1, 1000) of (r, w3, _) \<Rightarrow> (r, w3)) = (Inr rows, w3)"
    and c: "c = \<lparr>cmp_engine_mode = (if pg then ''lidb_vs_postgres'' else ''lidb_only''),
            cmp_profile = profile, cmp_threshold = thr, cmp_rows = rows\<rparr>"
    unfolding run_compare_def i Let_def prod.case act_seq_eq_Inr
    by (elim exE conjE) (rule that, assumption, simp)
  obtain r s where rs: "compare_rows fo clock os drv d pg thr warm iters SCENARIOS (w2, 1, 1000) = (r, s)"
    by (metis surj_pair)
  with k have "compare_rows fo clock os drv d pg thr warm iters SCENARIOS (w2, 1, 1000) = (Inr rows, s)"
    by (cases s) simp
  from compare_rows_Inr [OF this] show "map cr_benchmark (cmp_rows c) = SCENARIOS"
    "\<forall>row\<in>set (cmp_rows c). cr_status row = ''unknown'' \<longleftrightarrow> cmp_engine_mode c = ''lidb_only''"
    by (simp_all add: c)
qed

end
