(* ===== verification/Spec2Isabelle.thy ===== *)
theory Spec2Isabelle
  imports Liq_Roundtrip Liq_Params Sql_Flatten Audit_Probes Registry_Props Embed_Session Embed_Stdin
    Bench_Tier Bench_Harness Bench_Compare
begin

text \<open>
  A model of the Python part of lidb: the query language liq and its compiler, the data layer
  liorm that executes compiled plans on a native engine, the package registry on top of it, and
  the scripts that probe and benchmark the whole.

  The program. \<open>liq/parser.py\<close> reads a statement, \<open>liq/compiler.py\<close> resolves its names in the
  allowlist of \<open>liorm/catalog.py\<close> and lowers it to SQL with placeholders and a parameter schema;
  \<open>liorm/execute.py\<close> keeps a registry of plans and runs one with parameters through
  \<open>liorm/embed_engine.py\<close>, which flattens the SQL and runs the engine as a subprocess, the values
  as JSON on its standard input. \<open>liorm/capabilities.py\<close> says who may use raw SQL and
  \<open>liorm/audit.py\<close> keeps the hash-chained log and redacts secrets. \<open>registry/plans.py\<close>,
  \<open>registry/bootstrap.py\<close> and \<open>registry/service.py\<close> are the package registry: seven frozen plans
  and the operations over them. The scripts under \<open>scripts/\<close> use these parts.

  Theories, in the order of their imports, and what they model.
  \<^item> \<open>Lidb_Prelude\<close>: exceptions (\<open>exc\<close>), the error monad (\<open>ebind\<close>, \<open>emap\<close>), dictionaries in
    insertion order (association lists), state-passing actions (\<open>act_seq\<close>). \<open>Py_Str\<close> and \<open>Py_Regex\<close>:
    the string methods, \<open>re.match\<close> and \<open>re.sub\<close> that the code uses, on characters up to 255; a
    pattern is a list of items and the locales \<open>re_pattern\<close> and \<open>headed_pattern\<close> carry the laws of
    substitution. \<open>Py_Json\<close> and \<open>Py_Json_Loads\<close>: \<open>json.dumps\<close>, \<open>json.loads\<close>; the locale \<open>prefix_code\<close>
    is the contract of an encoding that can be read back.
  \<^item> \<open>Liq_Parser\<close> (all of \<open>liq/parser.py\<close>), \<open>Liq_Wf\<close> (what parsed statements are), \<open>Liq_Roundtrip\<close> (the
    printer and the round trip). \<open>Liorm_Catalog\<close> (\<open>catalog.py\<close>, with the locale \<open>name_resolver\<close>).
    \<open>Liq_Compiler\<close> (\<open>compiler.py\<close>); \<open>Sql_Plan\<close> (abstract plans, \<open>resolve_stmt\<close>, and the refinement),
    \<open>Sql_Safety\<close> (names, alphabet, injectivity of the text), \<open>Liq_Params\<close> (placeholders and schemas).
  \<^item> \<open>Liorm_Capabilities\<close>, \<open>Liorm_Audit\<close>, \<open>Audit_Chain\<close> (the locale \<open>hash_chain\<close> and its instance),
    \<open>Audit_Redact\<close> (what redaction removes; the locale \<open>scrub_pattern\<close>).
  \<^item> \<open>Liorm_Embed\<close> (\<open>embed_engine.py\<close>: \<open>os\<close> is the operating system, \<open>embed_state\<close> the globals),
    \<open>Sql_Flatten\<close> (\<open>_flatten_sql\<close> on compiled SQL, and the numbers of its placeholders), \<open>Embed_Stdin\<close>
    (\<open>read_params_json\<close> of \<open>engine/cli/embed_main.cpp\<close>, the reader of what the bridge sends),
    \<open>Liorm_Execute\<close> (\<open>execute.py\<close>), \<open>Embed_Session\<close> (the invariant of the globals; \<open>ensure_session\<close> as
    interleaved threads).
  \<^item> \<open>Registry_Plans\<close>, \<open>Registry_Service\<close>, \<open>Registry_Props\<close> (the locale \<open>plan_service\<close> is what the service
    needs of the plan registry; it is interpreted on \<open>registry_run\<close>).
  \<^item> \<open>Security_Probes\<close>, \<open>Audit_Probes\<close> (\<open>scripts/security_probe.py\<close>, \<open>scripts/audit_probe.py\<close>);
    \<open>Bench_Csv\<close>, \<open>Bench_Stats\<close>, \<open>Bench_Tier\<close>, \<open>Bench_Harness\<close>, \<open>Bench_Compare\<close> (\<open>scripts/bench/*.py\<close>).

  State. A Python global is a field of a record that the operations pass on: \<open>embed_state\<close> for
  \<open>_SESSION\<close>, \<open>_SESSION_DIR\<close> and \<open>_READY\<close>, \<open>plans\<close> for \<open>_PLANS\<close>, \<open>registry_state\<close> for both and
  \<open>_REGISTERED\<close>; the audit log is the list of its entries. An operation that may raise returns a sum,
  and an action keeps the state it had reached when it raises.

  The properties. C1 to C9 are about the compiler: only allowlisted names, a small alphabet, the
  refinement of the abstract plans, no ambiguity, where constants and parameters go, which errors.
  C10 to C13 are about the parser. C14 is the table of capabilities, C15 to C18 the execution of a
  plan and what reaches the engine, C19 to C22 the session, C23 to C26 the audit log, C27 to C29
  redaction, C30 to C35 the registry, C36 to C40 the probes and benchmarks. C5, C7, C13, C16, C34
  and C35 prove behaviour that the callers may not expect.

  Bounds. All loops are structural or have a measure; there is no fuel. The interleaving of C20 to
  C22 has any number of threads; a session is identified with the thread that opened it, and a
  step is one read or write of a global, the lock or the engine, or the exception of the call that
  opens the engine. Outside that interleaving \<open>os_run\<close> is a run that could be started. Threads of the
  race probe and of the benchmark pools are schedules of whole calls, given as lists. \<open>int\<close> of a text
  has the limit of 4300 digits that Python 3.12 sets; an integer that is written (\<open>str\<close>,
  \<open>json.dumps\<close>) is within it. A float is the text of its \<open>repr\<close>, and in the benchmarks a value of a
  linear order with the rounding operations as parameters; the ranks \<open>int(n * 0.95)\<close> and
  \<open>round(0.95 * (n - 1))\<close> are written on integers, which agrees with the doubles for the lengths that
  occur.

  Parameters. SHA-256, the clock, \<open>uuid4\<close>, \<open>float(x)\<close> and \<open>int(x)\<close> of values from outside, the
  operating system and the engine behind it, and the driver of PostgreSQL are arguments of the
  definitions. No law is assumed of them, except where a property states it.

  Not modelled. The native engine, its SQL front end and the change feed (C++, except the reader of
  C17), the migrations (SQL), the shell scripts and the tests. Of the Python files: the message texts of exceptions, the
  lines the scripts print, the parsing of command lines, and characters above 255.
\<close>

section \<open>The liq compiler\<close>

text \<open>
  C1. The SQL of a compiled program is the text of a plan whose table is the one the program
  names, resolved in the catalog allowlist, and all of whose columns are allowlisted columns
  of that table: no other identifier gets into the SQL.
\<close>

theorem compile_allowlisted:
  assumes "compile sha src = Inr r"
  shows "\<exists>s q. parse src = Inr s \<and> c_sql r = render_sql q \<and> allowed_plan (stmt_table s) q"
  using assms resolve_stmt_allowed by (metis compileE)

theorem compile_allowlisted_witness:
  "\<exists>s q. parse ''read packages { id, name } where name = $name'' = Inr s \<and>
     c_sql (case compile (\<lambda>_. ''0'') ''read packages { id, name } where name = $name'' of Inr r \<Rightarrow> r) = render_sql q \<and>
     allowed_plan (stmt_table s) q"
proof -
  have "returns (compile (\<lambda>_. ''0'') ''read packages { id, name } where name = $name'')" by code_simp
  then obtain r where r: "compile (\<lambda>_. ''0'') ''read packages { id, name } where name = $name'' = Inr r"
    by (rule returnsE)
  show ?thesis
    using compile_allowlisted [OF r] by (simp add: r)
qed

text \<open>
  C2. The compiled SQL is made of letters, digits, blanks and \<open>_ . , ( ) = $ * % - "\<close>: there is
  no single quote, semicolon, backslash or line break in it, whatever the program was.
\<close>

theorem compile_alphabet:
  assumes "compile sha src = Inr r"
  shows "list_all sql_char (c_sql r)"
  using assms resolve_stmt_ok render_sql_chars by (metis compileE)

theorem compile_alphabet_witness:
  "\<exists>r. compile (\<lambda>_. ''0'') ''insert publishers { id: $id, name: 7 }'' = Inr r \<and> list_all sql_char (c_sql r)"
proof -
  have "returns (compile (\<lambda>_. ''0'') ''insert publishers { id: $id, name: 7 }'')" by code_simp
  then obtain r where r: "compile (\<lambda>_. ''0'') ''insert publishers { id: $id, name: 7 }'' = Inr r"
    by (rule returnsE)
  show ?thesis
    using compile_alphabet [OF r] r by simp
qed

text \<open>
  C3. Refinement: the lowering of all four statement forms, with the order of its checks and
  its errors, is resolving the statement to an abstract plan and printing the plan; the schema
  is the list of parameters in the order of their first occurrence.
\<close>

theorem lower_stmt_refinement:
  "lower_stmt s = ebind (resolve_stmt s) (\<lambda>q. Inr (render_sql q, schema_of s))"
  by (rule lower_stmt_refines)

text \<open>
  C4. The text determines the statement: two statements with the same SQL mean the same plan,
  so no table, column or clause can be written in a way that reads as another.
\<close>

theorem sql_text_unambiguous:
  assumes "lower_stmt s = Inr (sql, sc)" "lower_stmt s' = Inr (sql, sc')"
  shows "resolve_stmt s = resolve_stmt s'"
proof -
  obtain q q' where "resolve_stmt s = Inr q" "resolve_stmt s' = Inr q'" "render_sql q = render_sql q'"
    using assms by (auto simp: lower_stmt_refines ebind_eq_Inr)
  then show ?thesis
    using render_sql_inject [of q q'] resolve_stmt_ok by simp
qed

theorem sql_text_unambiguous_witness:
  "let s = DeleteStmt \<lparr>d_table = \<lparr>raw = ''yanks'', parts = [''yanks'']\<rparr>, d_where = None\<rparr>;
       s' = DeleteStmt \<lparr>d_table = \<lparr>raw = ''public.yanks'', parts = [''public'', ''yanks'']\<rparr>, d_where = None\<rparr>
   in resolve_stmt s = resolve_stmt s'"
proof -
  let ?s = "DeleteStmt \<lparr>d_table = \<lparr>raw = ''yanks'', parts = [''yanks'']\<rparr>, d_where = None\<rparr>"
  let ?s' = "DeleteStmt \<lparr>d_table = \<lparr>raw = ''public.yanks'', parts = [''public'', ''yanks'']\<rparr>, d_where = None\<rparr>"
  let ?sql = "''DELETE FROM '' @ quoted ''public'' @ ''.'' @ quoted ''yanks''"
  have "lower_stmt ?s = Inr (?sql, [])" "lower_stmt ?s' = Inr (?sql, [])" by code_simp+
  from sql_text_unambiguous [OF this] show ?thesis by simp
qed

text \<open>
  C5. Constants leave no trace: replacing every literal of a statement by \<open>0\<close> changes neither
  the SQL nor the schema nor the error. (So the SQL of an \<open>insert\<close> with constants has \<open>%s\<close>
  where their values would have to come from, and nothing supplies them.)
\<close>

theorem constants_erased: "lower_stmt (erase_consts s) = lower_stmt s"
  by (rule lower_erase)

text \<open>
  C6. When no parameter is used twice, the compiled SQL writes every column of the statement with
  the placeholder whose number is the position of its own parameter among the keys of the compiled
  schema, and columns with constants with no placeholder. (By C4 the text has no second reading.)
\<close>

theorem placeholders_bind_schema:
  assumes "compile sha src = Inr r" "parse src = Inr s" "distinct (param_occs s)"
  shows "\<exists>q. plan_ok q \<and> c_sql r = render_sql q \<and>
    list_all2 (assign_matches (dict_keys (c_param_schema r))) (assigns s) (plan_assigns q)"
proof -
  obtain q where "resolve_stmt s = Inr q" "c_sql r = render_sql q" "c_param_schema r = schema_of s"
    using assms(1,2) by (auto elim!: compileE)
  then show ?thesis
    using placeholders_match [OF _ assms(3)] resolve_stmt_ok by auto
qed

theorem placeholders_bind_schema_witness:
  "\<exists>r s q. compile (\<lambda>_. ''0'') ''update packages set name = $name description = 5 where id = $id'' = Inr r \<and>
     parse ''update packages set name = $name description = 5 where id = $id'' = Inr s \<and> c_sql r = render_sql q \<and>
     list_all2 (assign_matches (dict_keys (c_param_schema r))) (assigns s) (plan_assigns q)"
proof -
  let ?src = "''update packages set name = $name description = 5 where id = $id''"
  have "returns (ebind (parse ?src) (\<lambda>s. ebind (compile (\<lambda>_. ''0'') ?src) (\<lambda>r.
      if distinct (param_occs s) then Inr (s, r) else Inl CompileError)))" by code_simp
  then obtain s r where "parse ?src = Inr s" "compile (\<lambda>_. ''0'') ?src = Inr r" "distinct (param_occs s)"
    by (auto elim!: returnsE simp: ebind_eq_Inr simp del: param_occs.simps split: if_splits)
  with placeholders_bind_schema [of "\<lambda>_. ''0''" ?src r s] show ?thesis by blast
qed

text \<open>
  C7. The numbers after the dollar signs of the compiled SQL are 1, 2, ... from left to right, one
  per occurrence of a parameter in the statement, while the compiled schema has one entry per
  parameter: the two agree in number exactly if no parameter is used twice. (A repeated parameter
  leaves a placeholder without a value.)
\<close>

theorem placeholder_count:
  assumes "compile sha src = Inr r" "parse src = Inr s"
  shows "sql_numbers (c_sql r) = [1..<length (param_occs s) + 1] \<and>
    (length (c_param_schema r) = length (sql_numbers (c_sql r)) \<longleftrightarrow> distinct (param_occs s))"
proof -
  obtain q where "resolve_stmt s = Inr q" "c_sql r = render_sql q" "c_param_schema r = schema_of s"
    using assms by (auto elim!: compileE)
  then show ?thesis
    using sql_numbers_lowered [of s q] schema_of_length(2) [of s] by (simp del: param_occs.simps upt_Suc)
qed

theorem placeholder_count_witness:
  "\<exists>r. compile (\<lambda>_. ''0'') ''insert packages { name: $n, description: $n }'' = Inr r \<and>
     sql_numbers (c_sql r) = [1, 2] \<and> length (c_param_schema r) \<noteq> 2"
proof -
  let ?src = "''insert packages { name: $n, description: $n }''"
  have "returns (ebind (parse ?src) (\<lambda>s. ebind (compile (\<lambda>_. ''0'') ?src) (\<lambda>r.
      if param_occs s = [''n'', ''n''] then Inr (s, r) else Inl CompileError)))" by code_simp
  then obtain s r where s: "parse ?src = Inr s" "compile (\<lambda>_. ''0'') ?src = Inr r" "param_occs s = [''n'', ''n'']"
    by (auto elim!: returnsE simp: ebind_eq_Inr simp del: param_occs.simps split: if_splits)
  with placeholder_count [of "\<lambda>_. ''0''" ?src r s] show ?thesis
    by (auto simp: upt_rec simp del: param_occs.simps)
qed

text \<open>
  C8. The JSON form of a statement (which the plan id hashes and the plan registry stores)
  determines what the statement compiles to.
\<close>

theorem ir_determines_sql:
  assumes "stmt_to_ir s = stmt_to_ir s'"
  shows "lower_stmt s = lower_stmt s'"
  using assms by (rule ir_determines_lowering)

theorem ir_determines_sql_witness:
  "let s = (\<lambda>cs. ReadStmt \<lparr>r_table = \<lparr>raw = ''yanks'', parts = [''yanks'']\<rparr>, r_columns = cs, r_where = None,
             r_order_column = None, r_order_desc = False, r_limit = None\<rparr>)
   in lower_stmt (s None) = lower_stmt (s (Some []))"
proof -
  let ?s = "\<lambda>cs. ReadStmt \<lparr>r_table = \<lparr>raw = ''yanks'', parts = [''yanks'']\<rparr>, r_columns = cs, r_where = None,
             r_order_column = None, r_order_desc = False, r_limit = None\<rparr>"
  have "stmt_to_ir (?s None) = stmt_to_ir (?s (Some []))" by (simp add: columns_ir_def)
  from ir_determines_sql [OF this] show ?thesis by simp
qed

text \<open>
  C9. Compilation fails only with the errors it documents: a \<open>ParseError\<close>, a \<open>CatalogError\<close>
  for a table or column outside the allowlist, a \<open>CompileError\<close> for a constant in a where
  clause; or with the \<open>ValueError\<close> of \<open>int\<close>, and then the source has a superscript digit or a run
  of more than 4300 decimal digits.
\<close>

theorem compile_errors:
  assumes "compile sha src = Inl e"
  shows "(\<exists>f. e = ParseError f) \<or> (\<exists>m. e = CatalogError m) \<or> e = CompileError \<or>
    (e = ValueError \<and> ((\<exists>c\<in>set src. superscript c) \<or> long_number src))"
proof (cases "parse src")
  case (Inl e')
  with assms have "parse src = Inl e" by (simp add: compile_def)
  with parse_exc [of src e "clean src"] show ?thesis
    by (auto simp: parser_exc_def clean_def list_all_iff)
next
  case (Inr s)
  with assms have "resolve_stmt s = Inl e"
    by (auto simp: compile_def Let_def lower_stmt_refines ebind_eq_Inl)
  then show ?thesis using resolve_stmt_Inl by blast
qed

theorem compile_errors_witness:
  "\<exists>e. compile (\<lambda>_. ''0'') ''delete yanks where reason = 5'' = Inl e \<and>
     ((\<exists>f. e = ParseError f) \<or> (\<exists>m. e = CatalogError m) \<or> e = CompileError \<or>
      (e = ValueError \<and> ((\<exists>c\<in>set ''delete yanks where reason = 5''. superscript c) \<or>
         long_number ''delete yanks where reason = 5'')))"
proof -
  have c: "compile (\<lambda>_. ''0'') ''delete yanks where reason = 5'' = Inl CompileError" by code_simp
  from compile_errors [OF c] show ?thesis using c by blast
qed

section \<open>The liq parser\<close>

text \<open>
  C10. Round trip: every statement whose strings survive tokenisation is read back exactly by
  the parser from its printed text, for all four statement forms and all their clauses.
\<close>

theorem parse_print:
  assumes "printable s"
  shows "parse (print_stmt s) = Inr s"
  unfolding parse_print_tokens [OF assms]
  using assms parse_tokens_print by (cases s) simp_all

theorem parse_print_witness:
  "let s = ReadStmt \<lparr>r_table = \<lparr>raw = ''public.yanks'', parts = [''public'', ''yanks'']\<rparr>,
        r_columns = Some [''id'', ''reason''], r_where = Some \<lparr>p_column = ''id'', p_op = ''='', p_rhs = Param ''rid''\<rparr>,
        r_order_column = Some ''id'', r_order_desc = True, r_limit = Some 10\<rparr>
   in parse (print_stmt s) = Inr s"
proof -
  let ?s = "ReadStmt \<lparr>r_table = \<lparr>raw = ''public.yanks'', parts = [''public'', ''yanks'']\<rparr>,
        r_columns = Some [''id'', ''reason''], r_where = Some \<lparr>p_column = ''id'', p_op = ''='', p_rhs = Param ''rid''\<rparr>,
        r_order_column = Some ''id'', r_order_desc = True, r_limit = Some 10\<rparr>"
  have "printable ?s" by code_simp
  from parse_print [OF this] show ?thesis by simp
qed

text \<open>
  C11. Every statement the parser returns is well formed: its table is one or two identifiers
  joined by a point, parameters are identifiers, columns are free of white space, numbers are not
  negative and have at most 4300 digits, an update has a binding, and a sort direction comes with a
  sort column.
\<close>

theorem parse_well_formed:
  assumes "parse src = Inr s"
  shows "wf_stmt s"
  using parse_Inr_tokens [OF assms] split_ws_tokens by (rule parse_tokens_wf)

theorem parse_well_formed_witness:
  "\<exists>s. parse ''update packages set name = $name where id = $id'' = Inr s \<and> wf_stmt s"
proof -
  have "returns (parse ''update packages set name = $name where id = $id'')" by code_simp
  then obtain s where s: "parse ''update packages set name = $name where id = $id'' = Inr s"
    by (rule returnsE)
  with parse_well_formed [OF s] show ?thesis by blast
qed

text \<open>
  C12. The interpolation markers are rejected wherever they stand: a source with \<open>${\<close> or a
  semicolon is a \<open>ParseError\<close>, and no other check comes first.
\<close>

theorem forbidden_rejected:
  assumes "in_str ''${'' src \<or> in_str '';'' src"
  shows "compile sha src = Inl (ParseError Forbidden_token)"
  using assms by (simp add: compile_def parse_def reject_forbidden_eq)

theorem forbidden_rejected_witness:
  "compile (\<lambda>_. ''0'') ''read yanks; delete yanks'' = Inl (ParseError Forbidden_token)"
  by (rule forbidden_rejected) code_simp

text \<open>
  C13. The tokens after the predicate of a \<open>delete\<close> are ignored, whatever they are: a second
  condition is dropped without an error and the statement deletes more than it says.
\<close>

theorem delete_ignores_rest:
  "parse_tokens (''delete'' # ''from'' # t # ''where'' # c # eq # v # rest) =
   parse_tokens [''delete'', ''from'', t, ''where'', c, eq, v]"
  by (cases "ident t"; cases "rhs v")
    (simp_all add: parse_tokens_verbs parse_delete_def delete_where_def predicate_def)

section \<open>Capabilities\<close>

text \<open>
  C14. Raw SQL is granted to exactly two pairs: a session to the administrator of the command
  line and a migration to the migration runner; every other pair, so every pair of an agent, is
  denied.
\<close>

theorem capability_matrix:
  "assert_capability p c =
     (if (p, c) \<in> {(CLI_ADMIN, SESSION), (MIGRATION_RUNNER, MIGRATION)} then Inr () else Inl CapabilityDenied)"
  using assert_capability_iff [of p c] assert_capability_cases [of p c] by auto

section \<open>Execution of plans\<close>

text \<open>A system in which every file exists and every command succeeds without output.\<close>

definition quiet_os :: "unit os" where
  "quiet_os = \<lparr>os_root = ''/lidb'', os_getenv = \<lambda>_ _. None, os_is_file = \<lambda>_ _. True, os_size = \<lambda>_ _. 1,
     os_which = \<lambda>_ _. True, os_mkdir = \<lambda>_ w. w, os_run = \<lambda>_ _ w. (\<lparr>returncode = 0, stdout = [], stderr = []\<rparr>, w),
     os_mkdtemp = \<lambda>w. (''/tmp/d'', w), os_rmtree = \<lambda>_ w. w\<rparr>"

text \<open>
  C15. What \<open>execute\<close> decides, in one case distinction: an unregistered plan is an
  \<open>UnknownPlan\<close>; parameters whose names are not the schema's, or with a text that occurs in the
  plan's SQL, are a \<open>ParameterMismatch\<close>, and in both cases the engine is not asked; otherwise
  the engine gets the plan's own SQL and the values in the order of the schema, and no lookup of
  a parameter can fail.
\<close>

theorem execute_decides:
  "execute os plans pid ps st =
     (case map_of plans pid of
        None \<Rightarrow> (Inl (UnknownPlan pid), st)
      | Some plan \<Rightarrow>
          if \<not> accepts plan ps then (Inl ParameterMismatch, st)
          else let (r, st1) = run_engine os (rp_sql plan) (bound_values plan ps) st in
            (ebind r (\<lambda>rows. Inr \<lparr>x_plan_id = pid, x_sql = rp_sql plan,
               x_bound_params = bound_values plan ps, x_rows = rows\<rparr>), st1))"
  by (rule execute_eq)

text \<open>
  C16. The check against values in the SQL rejects every call with an empty text, whatever the
  plan is: an empty text occurs in every SQL.
\<close>

theorem empty_text_rejected:
  assumes "map_of plans pid = Some plan" "(k, PStr []) \<in> set ps"
  shows "execute os plans pid ps st = (Inl ParameterMismatch, st)"
proof -
  have "verbatim (rp_sql plan) (PStr [])" by (simp add: verbatim_def)
  with assms(2) have "\<not> accepts plan ps" by (auto simp only: accepts_def)
  then show ?thesis by (simp add: execute_eq assms(1))
qed

theorem empty_text_rejected_witness:
  "execute quiet_os (snd (register_plan ''n'' ''p'' JNull ''SELECT 1'' [(''a'', ''text'')] [])) ''p'' [(''a'', PStr [])]
     (initial_globals ()) = (Inl ParameterMismatch, initial_globals ())"
  by (rule empty_text_rejected [where k = "''a''"]) (simp_all add: register_lookup)

text \<open>
  C17. What the engine's own reader makes of the text on its standard input: as many values as were
  sent, in their order and none running into another, whatever characters they have. A value
  arrives unchanged exactly when it is printable ASCII; in the others each other character arrives
  as its JSON escape without the backslash (a line break as \<open>n\<close>, a letter e with an acute accent as \<open>u00e9\<close>).
\<close>

theorem stdin_received:
  "read_params_json (stdin_of ps) = map (\<lambda>p. received (py_str p)) ps \<and>
   (read_params_json (stdin_of ps) = map py_str ps \<longleftrightarrow> list_all (\<lambda>p. list_all printable_char (py_str p)) ps)"
  by (auto simp: read_stdin received_id list_all_iff)

text \<open>
  C18. What the engine gets of a compiled plan: the three substitutions that flatten the SQL turn
  every qualified name into its bare name and every numbered placeholder into a question mark, and
  leave every other character alone; they never match across names.
\<close>

theorem flattened_sql:
  assumes "compile sha src = Inr r"
  shows "\<exists>q. c_sql r = ptext render_table render_col placeholder (pieces q) \<and>
    flatten_sql (c_sql r) = ptext snd (\<lambda>c. snd (snd c)) (\<lambda>_. ''?'') (pieces q)"
proof -
  obtain s q where "resolve_stmt s = Inr q" "c_sql r = render_sql q"
    using assms compileE by metis
  then have "c_sql r = render_sql q \<and> flatten_sql (c_sql r) = flat_text q"
    using flatten_render [OF resolve_stmt_ok] by simp
  then show ?thesis
    unfolding render_pieces flat_text_def bare_col_def [abs_def] by blast
qed

theorem flattened_sql_witness:
  "\<exists>r q. compile (\<lambda>_. ''0'') ''update packages set name = $n where id = $i returning id, name'' = Inr r \<and>
     flatten_sql (c_sql r) = ptext snd (\<lambda>c. snd (snd c)) (\<lambda>_. ''?'') (pieces q)"
proof -
  let ?src = "''update packages set name = $n where id = $i returning id, name''"
  have "returns (compile (\<lambda>_. ''0'') ?src)" by code_simp
  then obtain r where r: "compile (\<lambda>_. ''0'') ?src = Inr r" by (rule returnsE)
  from flattened_sql [OF r] obtain q where
    "flatten_sql (c_sql r) = ptext snd (\<lambda>c. snd (snd c)) (\<lambda>_. ''?'') (pieces q)" by blast
  with r show ?thesis by (intro exI [of _ r] exI [of _ q] conjI)
qed

section \<open>The session with the engine\<close>

text \<open>
  C19. The globals stay consistent (there is a session exactly when the engine is ready) and the
  first answer of \<open>ensure_session\<close>, success or failure, is its answer ever after.
\<close>

theorem session_stable:
  assumes "ensure_session os st = (r, st')" "embed_inv st"
  shows "embed_inv st' \<and> ensure_session os st' = (r, st')"
  using ensure_session_inv [OF assms] ensure_session_stable [OF assms] by simp

theorem session_stable_witness:
  "let (r, st') = ensure_session quiet_os (initial_globals ()) in
   embed_inv st' \<and> ensure_session quiet_os st' = (r, st')"
  using session_stable [OF prod.collapse [symmetric] initial_inv, of quiet_os "()"] by (simp add: split_beta)

text \<open>
  C20. Threads that call \<open>ensure_session\<close> at the same time, interleaved at every read and write
  of the globals and the lock: the engine is opened at most once, or again only after every earlier
  call had raised, and all threads that return give the same answer, the session of the globals.
\<close>

theorem session_opened_once:
  assumes "reachable c"
  shows "sh_opens c \<le> sh_raises c + 1 \<and> (\<forall>t u r s. sh_pc c t = Returned r \<and> sh_pc c u = Returned s \<longrightarrow> r = s) \<and>
    (\<forall>t r. sh_pc c t = Returned r \<longrightarrow> r = sh_session c)"
proof (intro conjI)
  note inv = reachable_inv [OF assms]
  show "sh_opens c \<le> sh_raises c + 1" using conc_invD(1) [OF inv] by (simp add: globals_ok_def)
  show "\<forall>t r. sh_pc c t = Returned r \<longrightarrow> r = sh_session c"
    using answer_is_session [OF inv] by blast
  then show "\<forall>t u r s. sh_pc c t = Returned r \<and> sh_pc c u = Returned s \<longrightarrow> r = s" by blast
qed

theorem session_opened_once_witness:
  "let c = goto idle 0 Read_session
   in sh_opens c \<le> sh_raises c + 1 \<and> (\<forall>t u r s. sh_pc c t = Returned r \<and> sh_pc c u = Returned s \<longrightarrow> r = s) \<and>
     (\<forall>t r. sh_pc c t = Returned r \<longrightarrow> r = sh_session c)"
proof -
  have "step idle (goto idle 0 Read_session)" using step.read_ready [of idle 0] by (simp add: idle_def)
  then have "reachable (goto idle 0 Read_session)" using reachable.start reachable.more by blast
  from session_opened_once [OF this] show ?thesis unfolding Let_def .
qed



text \<open>
  C22. Every run of \<open>n\<close> threads ends, and ends well: a run has at most \<open>10 n\<close> steps, and when no
  thread can move any more the lock is free and every thread has returned the session of the globals
  (\<open>None\<close> if opening the engine failed), or has raised because opening the engine did.
\<close>

theorem session_threads_finish:
  assumes "(step_below n ^^ k) idle c"
  shows "k \<le> 10 * n \<and> ((\<forall>c'. \<not> step_below n c c') \<longrightarrow> sh_lock c = None \<and>
    (\<forall>t<n. sh_pc c t = Returned (sh_session c) \<or> (sh_pc c t = Raised \<and> 0 < sh_raises c)))"
  using ranks_steps [OF assms] ranks_le [of n idle] maximal_run [OF assms] by (intro conjI impI) auto

theorem session_threads_finish_witness:
  "(step_below 1 ^^ 9) idle lone_end \<and> (9::nat) \<le> 10 * 1 \<and> sh_lock lone_end = None \<and>
     (sh_pc lone_end 0 = Returned (sh_session lone_end) \<or> (sh_pc lone_end 0 = Raised \<and> 0 < sh_raises lone_end))"
  using session_threads_finish [OF lone_run] lone_stuck lone_run zero_less_one by blast

section \<open>The audit log\<close>

text \<open>A log of one entry under the hash function that keeps the text.\<close>

definition sample_log :: audit_log where
  "sample_log = (case append_entry (\<lambda>t. t) (\<lambda>_. Inr ''0.0'') ''1.5'' ''query.executed'' [(''plan_id'', JStr ''p1'')] []
     of Inr (_, log) \<Rightarrow> log | Inl _ \<Rightarrow> [])"

text \<open>
  C23. Every log that a program can build by \<open>append\<close>, with any events, payloads and clock, is
  accepted by \<open>verify_chain\<close>.
\<close>

theorem audit_log_verifies:
  assumes "audit_reachable sha to_float log"
  shows "verify_chain sha log"
  using assms by (rule reachable_verifies)

theorem audit_log_verifies_witness: "length sample_log = 1 \<and> verify_chain (\<lambda>t. t) sample_log"
proof -
  let ?app = "append_entry (\<lambda>t. t) (\<lambda>_. Inr ''0.0'') ''1.5'' ''query.executed'' [(''plan_id'', JStr ''p1'')] []"
  obtain e where e: "?app = Inr (e, [e])"
    by (auto simp: append_entry_def entry_time_def Let_def)
  then have "audit_reachable (\<lambda>t. t) (\<lambda>_. Inr ''0.0'') [e]"
    by (rule audit_reachable.append [OF audit_reachable.empty])
  from audit_log_verifies [OF this] e show ?thesis by (simp add: sample_log_def)
qed

text \<open>
  C24. History: appending a list of events extends the log, entry for entry in the order of the
  events, without touching what was there, and keeps the chain valid.
\<close>

theorem audit_history:
  assumes "append_all sha to_float ops log = Inr log'" "verify_chain sha log"
  shows "\<exists>es. log' = log @ es \<and> map a_event es = map (\<lambda>(now, event, payload). event) ops \<and> verify_chain sha log'"
  using append_all_extends [OF assms(1)] assms(2) by blast

theorem audit_history_witness:
  "\<exists>log'. append_all (\<lambda>t. t) (\<lambda>_. Inr ''0.0'') [(''1.5'', ''a'', []), (''2.5'', ''b'', [(''k'', JNull)])] [] = Inr log' \<and>
     map a_event log' = [''a'', ''b''] \<and> verify_chain (\<lambda>t. t) log'"
proof -
  let ?ops = "[(''1.5'', ''a'', []), (''2.5'', ''b'', [(''k'', JNull)])]"
  obtain log' where log': "append_all (\<lambda>t. t) (\<lambda>_. Inr ''0.0'') ?ops [] = Inr log'"
    by (auto simp: append_entry_def entry_time_def Let_def)
  have "verify_chain (\<lambda>t. t) []" by (simp add: verify_chain_def)
  from audit_history [OF log' this] log' show ?thesis by auto
qed

text \<open>
  C25. Tamper evidence: two logs that verify and end in the same hash have the same entries, all
  fields of them (payloads up to the order of their keys), or the two logs show two different
  texts with the same hash.
\<close>

theorem audit_tamper_evidence:
  assumes "verify_chain sha log" "verify_chain sha log'" "list_all audit_entry_ok log" "list_all audit_entry_ok log'"
    and "log \<noteq> []" "log' \<noteq> []" "a_entry_hash (last log) = a_entry_hash (last log')"
  shows "map audit_view log = map audit_view log' \<or> collides sha audit_text log log'"
  using assms(1,2)[unfolded verify_chain_linked] assms(3-7) by (rule audit.same_end)

theorem audit_tamper_evidence_witness:
  "map audit_view sample_log = map audit_view sample_log \<or> collides (\<lambda>t. t) audit_text sample_log sample_log"
proof -
  have "verify_chain (\<lambda>t. t) sample_log" "list_all audit_entry_ok sample_log" "sample_log \<noteq> []" by code_simp+
  from audit_tamper_evidence [OF this(1) this(1) this(2) this(2) this(3) this(3) refl] show ?thesis .
qed

text \<open>
  C26. What \<open>verify_chain\<close> accepts, entry by entry: entry \<open>i\<close> has sequence number \<open>i\<close>, its hash
  is the hash of its fields, and its previous hash is that of entry \<open>i - 1\<close>, or \<open>genesis\<close>.
\<close>

theorem audit_verify_entries:
  "verify_chain sha log \<longleftrightarrow>
     (\<forall>i<length log. let e = log ! i in
        a_seq e = int i \<and>
        a_entry_hash e = entry_hash sha (a_seq e) (a_event e) (a_payload e) (a_recorded_at e) (a_prev_hash e) \<and>
        a_prev_hash e = (if i = 0 then GENESIS else a_entry_hash (log ! (i - 1))))"
  by (simp add: verify_chain_linked linked_nth entry_hash_def audit_text_def audit_view_def Let_def)

theorem audit_verify_entries_witness:
  "verify_chain (\<lambda>t. t) sample_log \<longleftrightarrow>
     (let e = sample_log ! 0 in a_seq e = 0 \<and> a_prev_hash e = GENESIS \<and>
        a_entry_hash e = entry_hash (\<lambda>t. t) (a_seq e) (a_event e) (a_payload e) (a_recorded_at e) (a_prev_hash e))"
proof -
  have "length sample_log = 1" by code_simp
  with audit_verify_entries [of "\<lambda>t. t" sample_log] show ?thesis by (auto simp: Let_def)
qed

section \<open>Redaction\<close>

text \<open>
  C27. No JSON web token survives: whatever the line, the redacted line has no match of the
  token pattern anywhere.
\<close>

theorem redacted_no_jwt: "\<not> re_search jwt_pat (redact_query_log line)"
  by (rule redact_no_jwt)

text \<open>
  C28. A quoted password leaves no trace, provided that the text before its key has no single quote
  or no other occurrence of the key: two lines that differ only in the password (which has no single
  quote) are redacted to the same line, whatever the letter case of the key and the blanks around
  the equals sign, and whatever follows. Without the proviso it does not hold (\<open>password_leaks\<close>): in
  \<open>password='password='hunter2'\<close> the opening quote of the password is taken for a closing one.
\<close>

theorem redacted_password:
  assumes "lower kw = ''password''" "blank sp1" "blank sp2"
    and "quote_char \<notin> set pre \<or> \<not> in_str ''password'' (lower pre)"
    and "quote_char \<notin> set s" "quote_char \<notin> set s'"
  shows "redact_query_log (pre @ secret_head kw sp1 sp2 @ quote_char # s @ quote_char # post) =
    redact_query_log (pre @ secret_head kw sp1 sp2 @ quote_char # s' @ quote_char # post)"
  using assms by (rule redact_password)

theorem redacted_password_witness:
  "redact_query_log (''login '' @ secret_head ''Password'' '' '' [] @ quote_char # ''hunter2'' @ quote_char # '';'') =
   redact_query_log (''login '' @ secret_head ''Password'' '' '' [] @ quote_char # ''x'' @ quote_char # '';'')"
proof (rule redacted_password)
  have "quote_char \<notin> set ''login ''" by code_simp
  then show "quote_char \<notin> set ''login '' \<or> \<not> in_str ''password'' (lower ''login '')" ..
qed code_simp+

text \<open>
  C29. A bearer token leaves no trace, provided that the text before its \<open>Bearer\<close> has no other
  \<open>bearer\<close> in any letter case and that there are no single quotes in the text before it and after
  it: two lines that differ only in the token (a whole run of token characters) are redacted alike.
  Without the first proviso it does
  not hold (\<open>bearer_leaks\<close>): of \<open>Bearer Bearer abc\<close> the \<open>abc\<close> stays.
\<close>

theorem redacted_bearer:
  assumes "lower kw = ''bearer''" "blank sp" "sp \<noteq> []" "\<not> in_str ''bearer'' (lower pre)"
    and "list_all token_char tok" "tok \<noteq> []" "list_all token_char tok'" "tok' \<noteq> []"
    and "post = [] \<or> \<not> token_char (hd post)" "quote_char \<notin> set pre" "quote_char \<notin> set post"
  shows "redact_query_log (pre @ kw @ sp @ tok @ post) = redact_query_log (pre @ kw @ sp @ tok' @ post)"
  using assms by (rule redact_bearer)

theorem redacted_bearer_witness:
  "redact_query_log (''Auth: '' @ ''Bearer'' @ '' '' @ ''abc.def'' @ '' ok'') =
   redact_query_log (''Auth: '' @ ''Bearer'' @ '' '' @ ''ghi'' @ '' ok'')"
  by (rule redacted_bearer) code_simp+

section \<open>The package registry\<close>

text \<open>A fresh process: no plan is registered and there is no session.\<close>

definition fresh_state :: "unit registry_state" where
  "fresh_state = \<lparr>g_registered = False, g_plans = [], g_embed = initial_globals ()\<rparr>"

lemma fresh_ready: "plans_ready (new_registry fresh_state)" "g_registered (new_registry fresh_state)"
  using new_registry_ready [of fresh_state] by (simp_all add: fresh_state_def)

definition no_float :: "json \<Rightarrow> string result" where
  "no_float v = Inl ValueError"

definition fixed_uuid :: "unit \<Rightarrow> string \<times> unit" where
  "fixed_uuid w = (''00000000-0000-4000-8000-00000000000a'', w)"

text \<open>
  C30. Creating the first \<open>RegistryOltp\<close> registers each of the seven frozen plans under its id
  with its own SQL and schema, whatever else is in the registry, and creating another changes
  nothing.
\<close>

theorem registry_plans_registered:
  assumes "\<not> g_registered st" "s \<in> set REGISTRY_PLANS"
  shows "map_of (g_plans (new_registry st)) (s_plan_id s) =
      Some \<lparr>rp_name = s_name s, rp_ir = s_ir s, rp_sql = s_sql s, rp_param_schema = s_param_schema s\<rparr> \<and>
    new_registry (new_registry st) = new_registry st"
  using new_registry_ready [OF assms(1)] assms(2) by (simp add: plans_ready_def plan_of_spec_def new_registry_idem)

theorem registry_plans_registered_witness:
  "map_of (g_plans (new_registry fresh_state)) (s_plan_id INSERT_PUBLISHER) =
     Some \<lparr>rp_name = s_name INSERT_PUBLISHER, rp_ir = s_ir INSERT_PUBLISHER, rp_sql = s_sql INSERT_PUBLISHER,
       rp_param_schema = s_param_schema INSERT_PUBLISHER\<rparr> \<and> new_registry (new_registry fresh_state) = new_registry fresh_state"
  by (rule registry_plans_registered) (simp_all add: fresh_state_def REGISTRY_PLANS_def)

text \<open>
  C31. The service calls only plans that are registered, on every path: once the plans are there
  they stay, and publishing, reading or listing never ends in an \<open>UnknownPlan\<close>.
\<close>

theorem registry_known_plans:
  assumes "plans_ready st" "\<forall>v pid. to_float v \<noteq> Inl (UnknownPlan pid)"
  shows "(\<forall>pid. fst (get_package_version (registry_run os) to_float name version st) \<noteq> Inl (UnknownPlan pid)) \<and>
    (\<forall>pid. fst (list_package_versions (registry_run os) to_float name yanked st) \<noteq> Inl (UnknownPlan pid)) \<and>
    (\<forall>pid. fst (publish_package_version (registry_run os) (registry_uuid4 u) to_float q st) \<noteq> Inl (UnknownPlan pid)) \<and>
    plans_ready (snd (publish_package_version (registry_run os) (registry_uuid4 u) to_float q st))"
  using service.get_ok [of to_float os name version] service.list_ok [of to_float os name yanked]
    service.publish_ok [of to_float os u q] assms
  by (simp add: act_ok_def service_exc_def) blast

theorem registry_known_plans_witness:
  "plans_ready (snd (publish_package_version (registry_run quiet_os) (registry_uuid4 fixed_uuid) no_float
     \<lparr>q_publisher_name = ''pub'', q_public_key = ''00'', q_package_name = ''li-x'', q_version = ''0.1.0'',
      q_tree_digest = ''sha256:x'', q_coverage_pct = ''90.0'', q_proof_digest = None, q_description = None,
      q_repository_url = None\<rparr> (new_registry fresh_state)))"
proof -
  have "\<forall>v pid. no_float v \<noteq> Inl (UnknownPlan pid)" by (simp add: no_float_def)
  from registry_known_plans [OF fresh_ready(1) this] show ?thesis by blast
qed

text \<open>
  C32. A version that is read or published comes back as a record of the package and the version
  that were asked for.
\<close>

theorem registry_returns_requested:
  "(get_package_version run to_float name version s = (Inr (Some r), s') \<longrightarrow> v_name r = name \<and> v_version r = version) \<and>
   (publish_package_version run uuid4 to_float q s = (Inr r, s') \<longrightarrow>
      v_name r = q_package_name q \<and> v_version r = q_version q)"
proof (intro conjI impI)
  assume "get_package_version run to_float name version s = (Inr (Some r), s')"
  then have "v_name r = name \<and> v_version r = version" by (rule get_package_version_Inr)
  then show "v_name r = name" "v_version r = version" by simp_all
next
  assume "publish_package_version run uuid4 to_float q s = (Inr r, s')"
  then have "v_name r = q_package_name q \<and> v_version r = q_version q" by (rule publish_Inr)
  then show "v_name r = q_package_name q" "v_version r = q_version q" by simp_all
qed

text \<open>Runs of plans that answer every query with one row.\<close>

definition one_row_run :: "unit plan_run" where
  "one_row_run pid ps s = (Inr [[(''id'', JStr ''7''), (''version'', JStr ''0.1.0''), (''tree_digest'', JStr ''t'')]], s)"

theorem registry_returns_requested_witness:
  "\<exists>r. get_package_version one_row_run (\<lambda>_. Inr ''0.0'') ''li-x'' ''0.1.0'' () = (Inr (Some r), ()) \<and>
     v_name r = ''li-x'' \<and> v_version r = ''0.1.0''"
proof -
  have "returns (ebind (fst (get_package_version one_row_run (\<lambda>_. Inr ''0.0'') ''li-x'' ''0.1.0'' ()))
      (\<lambda>x. case x of Some r \<Rightarrow> Inr r | None \<Rightarrow> Inl RuntimeError))" by code_simp
  moreover obtain res where res: "get_package_version one_row_run (\<lambda>_. Inr ''0.0'') ''li-x'' ''0.1.0'' () = (res, ())"
    by (metis surj_pair unit.exhaust)
  ultimately obtain r where "res = Inr (Some r)"
    by (auto elim!: returnsE simp: ebind_eq_Inr split: option.splits)
  with res have "get_package_version one_row_run (\<lambda>_. Inr ''0.0'') ''li-x'' ''0.1.0'' () = (Inr (Some r), ())" by simp
  with registry_returns_requested [of one_row_run "\<lambda>_. Inr ''0.0''" "''li-x''" "''0.1.0''" "()" r "()"]
  show ?thesis by (intro exI [of _ r]) simp
qed

text \<open>
  C33. Listing without the yanked versions is the complete list less the yanked ones, in the same
  order and with the same effect on the engine.
\<close>

theorem registry_list_filters:
  assumes "list_package_versions run to_float name True s = (Inr rs, s')"
  shows "list_package_versions run to_float name False s = (Inr (filter (\<lambda>r. \<not> v_yanked r) rs), s')"
  using assms by (rule list_filter)

theorem registry_list_filters_witness:
  "\<exists>rs. list_package_versions one_row_run (\<lambda>_. Inr ''0.0'') ''li-x'' True () = (Inr rs, ()) \<and>
     list_package_versions one_row_run (\<lambda>_. Inr ''0.0'') ''li-x'' False () = (Inr (filter (\<lambda>r. \<not> v_yanked r) rs), ())"
proof -
  have "returns (fst (list_package_versions one_row_run (\<lambda>_. Inr ''0.0'') ''li-x'' True ()))" by code_simp
  moreover obtain res where res: "list_package_versions one_row_run (\<lambda>_. Inr ''0.0'') ''li-x'' True () = (res, ())"
    by (metis surj_pair unit.exhaust)
  ultimately obtain rs where "res = Inr rs"
    by (auto elim!: returnsE)
  with res have "list_package_versions one_row_run (\<lambda>_. Inr ''0.0'') ''li-x'' True () = (Inr rs, ())" by simp
  from this registry_list_filters [OF this] show ?thesis by (intro exI [of _ rs] conjI)
qed

text \<open>
  C34. A version, digest or coverage whose text occurs in the SQL of the insertion cannot be
  published: \<open>1\<close>, \<open>id\<close>, \<open>version\<close> and the empty text are examples. The publication fails after
  the publisher and the package have been stored.
\<close>

theorem registry_publish_rejects:
  assumes "plans_ready st" "v \<in> {q_version q, q_tree_digest q, q_coverage_pct q, or_dash (q_proof_digest q)}"
    and "in_str v (s_sql INSERT_PACKAGE_VERSION)"
  shows "fst (publish_package_version (registry_run os) (registry_uuid4 u) to_float q st) \<noteq> Inr r"
  using assms by (rule publish_rejects)

theorem registry_publish_rejects_witness:
  "fst (publish_package_version (registry_run quiet_os) (registry_uuid4 fixed_uuid) no_float
     \<lparr>q_publisher_name = ''pub'', q_public_key = ''00'', q_package_name = ''li-x'', q_version = ''1'',
      q_tree_digest = ''sha256:x'', q_coverage_pct = ''90.0'', q_proof_digest = None, q_description = None,
      q_repository_url = None\<rparr> (new_registry fresh_state)) \<noteq>
   Inr \<lparr>v_name = ''li-x'', v_version = ''1'', v_tree_digest = ''sha256:x'', v_proof_digest = None, v_coverage_pct = ''90.0'',
      v_publisher_id = [], v_published_at = None, v_yanked = False, v_package_id = ''p'', v_version_id = ''v''\<rparr>"
proof (rule registry_publish_rejects [where v = "''1''"])
  show "plans_ready (new_registry fresh_state)" by (rule fresh_ready)
  show "in_str ''1'' (s_sql INSERT_PACKAGE_VERSION)" by code_simp
qed simp

text \<open>
  C35. Registration happens once per process: after \<open>clear_plans\<close> a new \<open>RegistryOltp\<close> does not
  register the plans again, and reading any package raises \<open>UnknownPlan\<close>.
\<close>

theorem registry_cleared:
  assumes "g_registered st"
  shows "get_package_version (registry_run os) to_float name version
      (new_registry (st\<lparr>g_plans := clear_plans (g_plans st)\<rparr>)) =
    (Inl (UnknownPlan ''registry:package_by_name:v1''), st\<lparr>g_plans := []\<rparr>)"
  using assms by (rule cleared_unknown)

theorem registry_cleared_witness:
  "let st = new_registry fresh_state in
   get_package_version (registry_run quiet_os) no_float ''li-x'' ''0.1.0''
      (new_registry (st\<lparr>g_plans := clear_plans (g_plans st)\<rparr>)) =
    (Inl (UnknownPlan ''registry:package_by_name:v1''), st\<lparr>g_plans := []\<rparr>)"
  unfolding Let_def
  by (rule registry_cleared) (rule fresh_ready)

section \<open>Probes and benchmarks\<close>

text \<open>
  C36. The probes of the CVE tests find nothing: whatever the state of the process, the hash
  function and the engine, each returns success or ends in an error of the engine bridge, never
  in a failure.
\<close>

theorem security_probes_pass:
  assumes "map_of (PROBES sha os) name = Some fn"
  shows "fst (fn st) = Inr True \<or> (\<exists>e\<in>{RuntimeError, ValueError, TypeError, AttributeError}. fst (fn st) = Inl e)"
  using security_probes_ok [OF assms] by (simp add: probe_ok_def engine_exc_def)

theorem security_probes_pass_witness:
  "let r = fst (probe_param_concat (\<lambda>_. ''0'') quiet_os ([], initial_globals ())) in
   r = Inr True \<or> (\<exists>e\<in>{RuntimeError, ValueError, TypeError, AttributeError}. r = Inl e)"
  unfolding Let_def
  by (rule security_probes_pass [where name = "''cve-cwe-89-sql-injection-via-param-concat''"]) (simp add: PROBES_def)

text \<open>
  C37. The 95th percentile of the harness is one: it is a sample, at least 95 per cent of the
  samples are not above it and at most 95 per cent are below it. For twenty samples or fewer it
  is the largest one, and it is never below the percentile of the comparison with PostgreSQL.
\<close>

theorem p95_is_percentile:
  assumes "samples \<noteq> []"
  shows "p95_ms samples \<in> set samples \<and>
    19 * length samples \<le> 20 * length (filter (\<lambda>x. x \<le> p95_ms samples) samples) \<and>
    20 * length (filter (\<lambda>x. x < p95_ms samples) samples) \<le> 19 * length samples \<and>
    (length samples \<le> 20 \<longrightarrow> p95_ms samples = Max (set samples)) \<and>
    compare_p95_ms samples \<le> p95_ms samples"
  using p95_percentile [OF assms] p95_few_is_Max [OF assms] compare_p95_le by blast

theorem p95_is_percentile_witness:
  "compare_p95_ms [9, 3, 5, 1, 12, 7, 2, 8, 4, 11, 6, 10::int] \<le> p95_ms [9, 3, 5, 1, 12, 7, 2, 8, 4, 11, 6, 10] \<and>
   p95_ms [9, 3, 5, 1, 12, 7, 2, 8, 4, 11, 6, 10::int] = Max (set [9, 3, 5, 1, 12, 7, 2, 8, 4, 11, 6, 10])"
  using p95_is_percentile [of "[9, 3, 5, 1, 12, 7, 2, 8, 4, 11, 6, 10::int]"] by (simp del: set_simps)

text \<open>
  C38. A collection that ends has one row for each benchmark of the catalog, in a fixed order, and
  none is claimed as passed without a value (the text of a float is never empty). The split by tier then succeeds and loses nothing: its
  files, at distinct paths, hold together each row once, and the file of a tier holds exactly the
  rows of that tier, in their order.
\<close>

theorem collect_rows_catalog:
  assumes "collect_rows fo os to_int to_kib h cfg w = (Inr rows, w')" "\<forall>x. fl_repr fo x \<noteq> []"
  shows "map benchmark_of rows = CATALOG_BENCHMARKS \<and> list_all honest_row rows \<and>
    (\<exists>files. split_by_tier rows root = Inr files \<and> is_dict files \<and> mset (concat (map snd files)) = mset rows \<and>
      (\<forall>tier. map_of files (tier_path root tier) =
        (let rs = filter (\<lambda>r. tier_of r = Some tier) rows in if rs = [] then None else Some rs)))"
proof -
  have rows: "map benchmark_of rows = CATALOG_BENCHMARKS" "list_all honest_row rows"
    using collect_rows_Inr [OF assms(1)] assms(2) by blast+
  then have "returns (split_by_tier rows root)" "filter (\<lambda>r. tier_of r \<noteq> None) rows = rows"
    using split_by_tier_total catalog_tiers(1) [OF rows] catalog_tiers(2) [OF rows] by auto
  then obtain files where "split_by_tier rows root = Inr files" "filter (\<lambda>r. tier_of r \<noteq> None) rows = rows"
    by (auto elim: returnsE)
  then show ?thesis
    using rows split_by_tier_mset [of rows root files] split_by_tier_rows [of rows root files] by simp
qed

text \<open>Whole numbers for floats, a clock that stands still, and commands that succeed.\<close>

definition int_floats :: "int float_ops" where
  "int_floats = \<lparr>fl_elapsed = \<lambda>a b. b - a, fl_div = \<lambda>a b. a div b, fl_int = \<lambda>i. i, fl_mean = \<lambda>a b. (a + b) div 2,
     fl_round = \<lambda>_ x. x, fl_repr = show_int\<rparr>"

definition quiet_tier_os :: "(unit, int) tier_os" where
  "quiet_tier_os = \<lparr>os_root = ''/lidb'', os_getenv = \<lambda>_ _. None, os_is_file = \<lambda>_ _. True, os_size = \<lambda>_ _. 1,
     os_which = \<lambda>_ _. True, os_mkdir = \<lambda>_ w. w, os_run = \<lambda>_ _ w. (\<lparr>returncode = 0, stdout = [], stderr = []\<rparr>, w),
     os_mkdtemp = \<lambda>w. (''/tmp/d'', w), os_rmtree = \<lambda>_ w. w, os_write = \<lambda>_ _ w. w, os_executable = \<lambda>_ _. True,
     os_uuid4 = \<lambda>w. (''u'', w), os_clock = \<lambda>w. (0, w), os_glob_rls = \<lambda>_. [''rls-a.test.sh''], os_load = \<lambda>_ _ _. [0, 1]\<rparr>"

definition quiet_host :: host where
  "quiet_host = \<lparr>h_git = Some ''abc123'', h_system = ''Linux'', h_machine = ''x86_64''\<rparr>"

definition quiet_config :: config where
  "quiet_config = \<lparr>cfg_build_dir = ''b'', cfg_embed = ''e'', cfg_variant = ''ci'', cfg_read_iters = 1\<rparr>"

lemma show_int_not_Nil: "show_int i \<noteq> []"
  by (simp add: show_int_def)

theorem collect_rows_catalog_witness:
  "\<exists>rows. collect_rows int_floats quiet_tier_os (\<lambda>_. Inr 1) (\<lambda>_. None) quiet_host quiet_config () = (Inr rows, ()) \<and>
     map benchmark_of rows = CATALOG_BENCHMARKS \<and> list_all honest_row rows \<and>
     (\<exists>files. split_by_tier rows ''/b'' = Inr files \<and> mset (concat (map snd files)) = mset rows)"
proof -
  let ?c = "collect_rows int_floats quiet_tier_os (\<lambda>_. Inr 1) (\<lambda>_. None) quiet_host quiet_config ()"
  have "returns (fst ?c)" by code_simp
  moreover obtain res where res: "?c = (res, ())" by (metis surj_pair unit.exhaust)
  ultimately obtain rows where "res = Inr rows" by (auto elim!: returnsE)
  with res have rows: "?c = (Inr rows, ())" by simp
  have "\<forall>x. fl_repr int_floats x \<noteq> []" by (simp add: int_floats_def show_int_not_Nil)
  from collect_rows_catalog [OF rows this, of "''/b''"] rows show ?thesis by (intro exI [of _ rows]) auto
qed

text \<open>
  C39. The CSV text determines the rows: two tables with the same text have the same fields in
  the same rows, whatever commas, quotes and line breaks the values have.
\<close>

theorem csv_text_unambiguous: "csv_text rows = csv_text rows' \<longleftrightarrow> map row_fields rows = map row_fields rows'"
  by (rule csv_text_decode)

text \<open>
  C40. The status of a tier: \<open>fail\<close> exactly when a scenario is red, \<open>stub\<close> when all are stubs,
  \<open>pass\<close> when the rest are green and there is one; the report carries the same status.
\<close>

theorem tier_status_decides:
  assumes "build_payload now version tier profile scs = Inr p"
  shows "\<exists>x\<in>{''fail'', ''pass'', ''stub'', ''unknown''}. map_of p ''status'' = Some (JStr x) \<and>
    (x = ''fail'' \<longleftrightarrow> has_status scs ''red'') \<and>
    (x = ''stub'' \<longleftrightarrow> (\<forall>s\<in>set scs. scenario_status s = JStr ''stub'')) \<and>
    (x = ''pass'' \<longleftrightarrow> has_status scs ''green'' \<and> (\<forall>s\<in>set scs. scenario_status s \<in> {JStr ''green'', JStr ''stub''}))"
proof -
  obtain x where x: "tier_status scs = Inr x" "map_of p ''status'' = Some (JStr x)"
    using build_payload_status [OF assms] by blast
  show ?thesis
    by (rule bexI [OF _ tier_status_cases(4) [OF x(1)]]) (intro conjI x(2) tier_status_cases [OF x(1)])
qed

theorem tier_status_decides_witness:
  "\<exists>p. build_payload ''t'' None ''tier_db_audit'' ''ci''
      [[(''id'', JStr ''a''), (''status'', JStr ''green''), (''lidb'', JInt 1)], [(''status'', JStr ''red'')]] = Inr p \<and>
     map_of p ''status'' = Some (JStr ''fail'')"
proof -
  let ?scs = "[[(''id'', JStr ''a''), (''status'', JStr ''green''), (''lidb'', JInt 1)], [(''status'', JStr ''red'')]]"
  have "returns (build_payload ''t'' None ''tier_db_audit'' ''ci'' ?scs)" by code_simp
  then obtain p where p: "build_payload ''t'' None ''tier_db_audit'' ''ci'' ?scs = Inr p" by (rule returnsE)
  have "has_status ?scs ''red''" by (simp add: has_status_def scenario_status_def)
  with tier_status_decides [OF p] p show ?thesis by blast
qed

end
